theory Spec2Isabelle
  imports Complex_Main "HOL-Library.Char_ord" "HOL-Library.List_Lexorder" "HOL-Library.Sublist"
    "HOL-Library.AList"
begin

section \<open>Strings\<close>

text \<open>
  Python strings are modelled as \<open>string\<close>, a list of 8-bit characters standing for the
  code points 0..255.  \<open>is_space\<close> is the set of those code points for which
  \<^verbatim>\<open>str.isspace()\<close> holds; it is also what \<^verbatim>\<open>\s\<close> matches in a \<^verbatim>\<open>str\<close> pattern.
\<close>

definition is_space :: "char \<Rightarrow> bool" where
  "is_space c = (of_char c \<in> {9, 10, 11, 12, 13, 28, 29, 30, 31, 32, 133, 160 :: nat})"

definition newline :: char where
  "newline = CHR 0x0A"

text \<open>\<^verbatim>\<open>s.strip()\<close>\<close>

definition strip :: "string \<Rightarrow> string" where
  "strip s = rev (dropWhile is_space (rev (dropWhile is_space s)))"

text \<open>\<^verbatim>\<open>s.startswith(p)\<close>\<close>

definition startswith :: "string \<Rightarrow> string \<Rightarrow> bool" where
  "startswith s p = (take (length p) s = p)"

text \<open>\<^verbatim>\<open>p in s\<close> for two strings: \<open>p\<close> occurs in \<open>s\<close> as a contiguous substring.\<close>

fun py_in :: "string \<Rightarrow> string \<Rightarrow> bool" where
  "py_in p [] = (p = [])"
| "py_in p (c # cs) = (startswith (c # cs) p \<or> py_in p cs)"

text \<open>\<^verbatim>\<open>''.join(parts)\<close>\<close>

definition join_empty :: "string list \<Rightarrow> string" where
  "join_empty parts = concat parts"


section \<open>notebook\_executor.py: the cell store\<close>

text \<open>
  A notebook document is the list under its \<^verbatim>\<open>cells\<close> key (the empty list when the key
  is absent).  A cell's \<^verbatim>\<open>cell_type\<close> may be missing; its \<^verbatim>\<open>source\<close> is a string or a
  list of strings, and \<^verbatim>\<open>cell.get('source', '')\<close> makes a missing one the empty string.
\<close>

datatype source_field = SrcStr string | SrcList "string list"

record raw_cell =
  cell_type :: "string option"
  raw_source :: "source_field option"

record code_cell =
  index :: nat
  source :: string
  original_index :: nat

definition source_of :: "raw_cell \<Rightarrow> string" where
  "source_of c =
     (case raw_source c of
        None \<Rightarrow> []
      | Some (SrcStr s) \<Rightarrow> s
      | Some (SrcList parts) \<Rightarrow> join_empty parts)"

text \<open>The loop of \<^verbatim>\<open>_extract_code_cells\<close>: \<open>idx\<close> is the enumeration index, \<open>cells\<close>
  the list built so far.\<close>

fun extract_loop :: "nat \<Rightarrow> raw_cell list \<Rightarrow> code_cell list \<Rightarrow> code_cell list" where
  "extract_loop idx [] cells = cells"
| "extract_loop idx (cell # rest) cells =
     (if cell_type cell = Some ''code''
      then extract_loop (Suc idx) rest
             (cells @ [\<lparr>index = idx, source = source_of cell, original_index = length cells\<rparr>])
      else extract_loop (Suc idx) rest cells)"

definition extract_code_cells :: "raw_cell list \<Rightarrow> code_cell list" where
  "extract_code_cells notebook_cells = extract_loop 0 notebook_cells []"


section \<open>notebook\_executor.py: the function locator\<close>

text \<open>
  \<^verbatim>\<open>find_function_cell\<close> searches each cell source with
  \<^verbatim>\<open>re.search(rf'^\s*def\s+{re.escape(function_name)}\s*\(', source, re.MULTILINE)\<close>.
  The matcher below is the backtracking search of that pattern, written with
  continuations: \<open>ws_star k\<close> is \<^verbatim>\<open>\s*\<close> followed by \<open>k\<close>, \<open>ws_plus k\<close> is \<^verbatim>\<open>\s+\<close>
  followed by \<open>k\<close>, and \<open>lit p k\<close> is the literal \<open>p\<close> followed by \<open>k\<close>.
\<close>

fun ws_star :: "(string \<Rightarrow> bool) \<Rightarrow> string \<Rightarrow> bool" where
  "ws_star k [] = k []"
| "ws_star k (c # cs) = (k (c # cs) \<or> (is_space c \<and> ws_star k cs))"

definition ws_plus :: "(string \<Rightarrow> bool) \<Rightarrow> string \<Rightarrow> bool" where
  "ws_plus k s = (case s of [] \<Rightarrow> False | c # cs \<Rightarrow> is_space c \<and> ws_star k cs)"

definition lit :: "string \<Rightarrow> (string \<Rightarrow> bool) \<Rightarrow> string \<Rightarrow> bool" where
  "lit p k s = (startswith s p \<and> k (drop (length p) s))"

definition match_header :: "string \<Rightarrow> string \<Rightarrow> bool" where
  "match_header function_name s =
     ws_star (lit ''def'' (ws_plus (lit function_name (ws_star (lit ''('' (\<lambda>_. True)))))) s"

text \<open>With \<^verbatim>\<open>re.MULTILINE\<close>, \<^verbatim>\<open>^\<close> matches at the start of the string and right after
  every newline; \<open>at_start\<close> says whether the current position is such a place.\<close>

fun search_header :: "string \<Rightarrow> bool \<Rightarrow> string \<Rightarrow> bool" where
  "search_header function_name at_start [] = (at_start \<and> match_header function_name [])"
| "search_header function_name at_start (c # cs) =
     ((at_start \<and> match_header function_name (c # cs))
      \<or> search_header function_name (c = newline) cs)"

definition re_search_def :: "string \<Rightarrow> string \<Rightarrow> bool" where
  "re_search_def function_name src = search_header function_name True src"

fun find_function_cell :: "code_cell list \<Rightarrow> string \<Rightarrow> int" where
  "find_function_cell [] function_name = - 1"
| "find_function_cell (cell # rest) function_name =
     (if re_search_def function_name (source cell) then int (original_index cell)
      else find_function_cell rest function_name)"

text \<open>
  The header as the specification words it: somewhere in the source, at the start of a
  line, there is optional whitespace, \<^verbatim>\<open>def\<close>, whitespace, exactly the name, optional
  whitespace and an opening parenthesis.
\<close>

definition all_space :: "string \<Rightarrow> bool" where
  "all_space ws = list_all is_space ws"

definition header_in :: "string \<Rightarrow> string \<Rightarrow> bool" where
  "header_in function_name src =
     (\<exists>pre ws1 ws2 ws3 post.
        src = pre @ ws1 @ ''def'' @ ws2 @ function_name @ ws3 @ ''('' @ post
        \<and> (pre = [] \<or> last pre = newline)
        \<and> all_space ws1 \<and> ws2 \<noteq> [] \<and> all_space ws2 \<and> all_space ws3)"


section \<open>notebook\_executor.py: the context validator\<close>

text \<open>
  A namespace is a Python dict from names to runtime objects.  It is modelled as an
  association list in insertion order; \<open>map_of\<close> looks a key up and \<open>AList.update\<close> is
  the assignment \<^verbatim>\<open>d[k] = v\<close> (in place for an existing key, appended for a new one).
\<close>

type_synonym 'v namespace = "(string \<times> 'v) list"

definition requirements :: "string \<Rightarrow> string list" where
  "requirements function_name =
     (if function_name = ''create_qkv_projections'' then [''embeddings'', ''torch'', ''nn'']
      else if function_name = ''compute_attention_scores'' then [''Q'', ''K'', ''torch'', ''math'']
      else if function_name = ''compute_attention_weights'' then [''attention_scores'', ''F'']
      else if function_name = ''aggregate_values'' then [''attention_weights'', ''V'', ''torch'']
      else [])"

definition validate_context_for_function ::
  "string \<Rightarrow> 'v namespace \<Rightarrow> bool \<times> string list" where
  "validate_context_for_function function_name context =
     (let required = requirements function_name;
          missing = filter (\<lambda>var. map_of context var = None) required
      in (length missing = 0, missing))"

definition pipeline_stages :: "string list" where
  "pipeline_stages = [''create_qkv_projections'', ''compute_attention_scores'',
                      ''compute_attention_weights'', ''aggregate_values'']"


section \<open>notebook\_executor.py: the context executor\<close>

text \<open>
  The Python runtime is a parameter.  Objects are values of type \<open>'v\<close> (references: a
  namespace binds names to them); everything else a cell can read or change (the
  contents of mutable objects, files, the output streams) is the world \<open>'w\<close>, threaded
  through every primitive.

  \<open>exec rt cell_code context w\<close> is \<^verbatim>\<open>local_context = context.copy()\<close> followed by
  \<^verbatim>\<open>exec(cell_code, local_context)\<close>.  The copy is shallow and the caller's dict stays
  reachable from the cell: a function defined by an earlier cell has that dict as its
  globals, so a call of it can bind or rebind names there.  The outcomes are
  \<^item> \<open>Returned local_context\<close>: the cell ended; \<open>local_context\<close> is the copy as the cell
    left it;
  \<^item> \<open>Raised msg tb context'\<close>: the cell raised an exception of the class \<^verbatim>\<open>Exception\<close>,
    with \<^verbatim>\<open>str(e)\<close> and the formatted traceback; \<open>context'\<close> is the caller's dict as the
    cell left it (it is \<open>context\<close> when the cell wrote to its copy only);
  \<^item> \<open>Exited e\<close>: the cell raised an exception outside \<^verbatim>\<open>Exception\<close> (\<^verbatim>\<open>SystemExit\<close>,
    \<^verbatim>\<open>KeyboardInterrupt\<close>), which \<^verbatim>\<open>except Exception\<close> lets through.
  A cell that never returns is outside the model.
\<close>

datatype 'v exec_result =
  Returned "'v namespace" | Raised string string "'v namespace" | Exited string

record ('v, 'w) runtime =
  exec :: "string \<Rightarrow> 'v namespace \<Rightarrow> 'w \<Rightarrow> 'v exec_result \<times> 'w"
  print :: "string \<Rightarrow> 'w \<Rightarrow> 'w"
  deepcopy :: "'v \<Rightarrow> 'w \<Rightarrow> 'v option \<times> 'w"
  deepcopy_dict :: "'v namespace \<Rightarrow> 'w \<Rightarrow> (string + 'v namespace) \<times> 'w"
  has_module_attr :: "'v \<Rightarrow> bool"
  class_name :: "'v \<Rightarrow> string"
  initial_object :: "string \<Rightarrow> 'v"

record 'v executor =
  cells :: "code_cell list"
  execution_cache :: "int \<rightharpoonup> 'v namespace"

text \<open>\<^verbatim>\<open>str(n)\<close> for a cell index.\<close>

definition digit_char :: "nat \<Rightarrow> char" where
  "digit_char d = char_of (48 + d)"

fun show_nat :: "nat \<Rightarrow> string" where
  "show_nat n = (if n < 10 then [digit_char n] else show_nat (n div 10) @ [digit_char (n mod 10)])"

text \<open>\<^verbatim>\<open>_initialize_context\<close>: the keys are the code's, the objects bound to them are the
  runtime's (the three alternatives for the helper imports bind the same six keys).\<close>

definition initial_keys :: "string list" where
  "initial_keys = [''__builtins__'', ''__name__'', ''torch'', ''nn'', ''F'', ''np'', ''math'',
     ''tokenize_text'', ''create_embeddings'', ''visualize_qkv_projections'',
     ''visualize_attention_scores'', ''visualize_attention_weights'',
     ''visualize_attended_output'']"

definition initialize_context :: "('v, 'w) runtime \<Rightarrow> 'v namespace" where
  "initialize_context rt = map (\<lambda>k. (k, initial_object rt k)) initial_keys"

text \<open>\<^verbatim>\<open>_safe_cell_execution\<close>: on success it returns the copy; on an exception it returns
  \<^verbatim>\<open>context\<close>, the caller's dict itself, whose contents at that moment are \<open>context'\<close>.\<close>

definition safe_cell_execution ::
  "('v, 'w) runtime \<Rightarrow> string \<Rightarrow> 'v namespace \<Rightarrow> nat \<Rightarrow> 'w
     \<Rightarrow> (string + 'v namespace \<times> string option) \<times> 'w" where
  "safe_cell_execution rt cell_code context cell_index w =
     (case exec rt cell_code context w of
        (Returned local_context, w') \<Rightarrow> (Inr (local_context, None), w')
      | (Raised msg tb context', w') \<Rightarrow>
          (Inr (context',
                Some (''Cell '' @ show_nat cell_index @ '' execution failed: '' @ msg
                      @ [newline] @ ''Traceback: '' @ tb)), w')
      | (Exited e, w') \<Rightarrow> (Inl e, w'))"

text \<open>Whether the loop of \<^verbatim>\<open>execute_cells_until\<close> passes over a cell without executing
  it: empty after stripping, a shell or magic command, or an import of the evaluation
  module.\<close>

definition skipped :: "string \<Rightarrow> bool" where
  "skipped cell_source =
     (cell_source = [] \<or> startswith cell_source ''!'' \<or> startswith cell_source ''%''
      \<or> py_in ''from src.evaluation import'' cell_source)"

text \<open>The body of the loop for one cell that is not beyond the target.\<close>

definition process_cell ::
  "('v, 'w) runtime \<Rightarrow> nat \<Rightarrow> code_cell \<Rightarrow> 'v namespace \<Rightarrow> 'w
     \<Rightarrow> (string + 'v namespace) \<times> 'w" where
  "process_cell rt i cell context w =
     (let cell_source = strip (source cell) in
      if skipped cell_source then (Inr context, w)
      else
        (case safe_cell_execution rt cell_source context i w of
           (Inl e, w') \<Rightarrow> (Inl e, w')
         | (Inr (context', None), w') \<Rightarrow> (Inr context', w')
         | (Inr (context', Some error), w') \<Rightarrow>
             (Inr context',
              print rt (''Warning: Cell '' @ show_nat i @ '' execution failed: '' @ error) w')))"

fun replay_cells ::
  "('v, 'w) runtime \<Rightarrow> int \<Rightarrow> nat \<Rightarrow> code_cell list \<Rightarrow> 'v namespace \<Rightarrow> 'w
     \<Rightarrow> (string + 'v namespace) \<times> 'w" where
  "replay_cells rt target_cell_index i [] context w = (Inr context, w)"
| "replay_cells rt target_cell_index i (cell # rest) context w =
     (if int (original_index cell) > target_cell_index then (Inr context, w)
      else
        (case process_cell rt i cell context w of
           (Inl e, w') \<Rightarrow> (Inl e, w')
         | (Inr context', w') \<Rightarrow> replay_cells rt target_cell_index (Suc i) rest context' w'))"

text \<open>The snapshot stored in the cache: a deep copy of each value where one can be made,
  the value itself otherwise (and for module-like values without trying).\<close>

definition module_keys :: "string list" where
  "module_keys = [''__builtins__'', ''torch'', ''nn'', ''F'', ''np'', ''math'']"

fun cache_snapshot ::
  "('v, 'w) runtime \<Rightarrow> 'v namespace \<Rightarrow> 'v namespace \<Rightarrow> 'w \<Rightarrow> 'v namespace \<times> 'w" where
  "cache_snapshot rt [] cacheable_context w = (cacheable_context, w)"
| "cache_snapshot rt ((key, val) # items) cacheable_context w =
     (if \<not> (has_module_attr rt val
              \<and> (class_name rt val = ''module'' \<or> key \<in> set module_keys))
      then
        (case deepcopy rt val w of
           (Some copied, w') \<Rightarrow>
             cache_snapshot rt items (AList.update key copied cacheable_context) w'
         | (None, w') \<Rightarrow>
             cache_snapshot rt items (AList.update key val cacheable_context) w')
      else cache_snapshot rt items (AList.update key val cacheable_context) w)"

definition execute_cells_until ::
  "('v, 'w) runtime \<Rightarrow> 'v executor \<Rightarrow> int \<Rightarrow> 'w
     \<Rightarrow> (string + 'v namespace) \<times> 'v executor \<times> 'w" where
  "execute_cells_until rt ex target_cell_index w =
     (case execution_cache ex target_cell_index of
        Some cached \<Rightarrow>
          (case deepcopy_dict rt cached w of (r, w') \<Rightarrow> (r, ex, w'))
      | None \<Rightarrow>
          (case replay_cells rt target_cell_index 0 (cells ex) (initialize_context rt) w of
             (Inl e, w1) \<Rightarrow> (Inl e, ex, w1)
           | (Inr context, w1) \<Rightarrow>
               (case cache_snapshot rt context [] w1 of
                  (cacheable_context, w2) \<Rightarrow>
                    (Inr context,
                     ex\<lparr>execution_cache :=
                          (execution_cache ex)(target_cell_index \<mapsto> cacheable_context)\<rparr>,
                     w2))))"

text \<open>A new executor for a notebook: its code cells and an empty cache.\<close>

definition new_executor :: "raw_cell list \<Rightarrow> 'v executor" where
  "new_executor notebook_cells =
     \<lparr>cells = extract_code_cells notebook_cells, execution_cache = Map.empty\<rparr>"

text \<open>Replaying every cell, with no target: the loop above without its \<^verbatim>\<open>break\<close>.\<close>

fun replay_all ::
  "('v, 'w) runtime \<Rightarrow> nat \<Rightarrow> code_cell list \<Rightarrow> 'v namespace \<Rightarrow> 'w
     \<Rightarrow> (string + 'v namespace) \<times> 'w" where
  "replay_all rt i [] context w = (Inr context, w)"
| "replay_all rt i (cell # rest) context w =
     (case process_cell rt i cell context w of
        (Inl e, w') \<Rightarrow> (Inl e, w')
      | (Inr context', w') \<Rightarrow> replay_all rt (Suc i) rest context' w')"

text \<open>
  A small runtime for examples: objects are integers, the world is the list of printed
  lines, and \<open>exec\<close> knows these one-line cells: \<^verbatim>\<open>x = 1\<close>; \<^verbatim>\<open>y = x + 1\<close> (a
  \<^verbatim>\<open>NameError\<close> when \<^verbatim>\<open>x\<close> is unbound); \<^verbatim>\<open>raise ValueError('boom')\<close>;
  \<^verbatim>\<open>def bump(): global x; x = 5\<close>, which binds \<^verbatim>\<open>bump\<close>; \<^verbatim>\<open>bump(); raise ValueError()\<close>,
  whose call of \<^verbatim>\<open>bump\<close> writes \<^verbatim>\<open>x\<close> into the globals of \<^verbatim>\<open>bump\<close>, the caller's dict, before
  the cell raises; and \<^verbatim>\<open>raise SystemExit\<close>.
\<close>

definition example_exec :: "string \<Rightarrow> int namespace \<Rightarrow> string list \<Rightarrow> int exec_result \<times> string list" where
  "example_exec cell_code context w =
     (if cell_code = ''x = 1'' then (Returned (AList.update ''x'' 1 context), w)
      else if cell_code = ''y = x + 1'' then
        (case map_of context ''x'' of
           Some v \<Rightarrow> (Returned (AList.update ''y'' (v + 1) context), w)
         | None \<Rightarrow> (Raised ''name x is not defined'' ''NameError'' context, w))
      else if cell_code = ''raise ValueError('' @ [CHR 0x27] @ ''boom'' @ [CHR 0x27] @ '')''
        then (Raised ''boom'' ''ValueError'' context, w)
      else if cell_code = ''def bump(): global x; x = 5''
        then (Returned (AList.update ''bump'' 0 context), w)
      else if cell_code = ''bump(); raise ValueError()'' then
        (case map_of context ''bump'' of
           Some v \<Rightarrow> (Raised [] ''ValueError'' (AList.update ''x'' 5 context), w)
         | None \<Rightarrow> (Raised ''name bump is not defined'' ''NameError'' context, w))
      else if cell_code = ''raise SystemExit'' then (Exited ''SystemExit'', w)
      else (Raised ''invalid syntax'' ''SyntaxError'' context, w))"

definition example_runtime :: "(int, string list) runtime" where
  "example_runtime =
     \<lparr>exec = example_exec,
      print = (\<lambda>line w. w @ [line]),
      deepcopy = (\<lambda>v w. (Some v, w)),
      deepcopy_dict = (\<lambda>d w. (Inr d, w)),
      has_module_attr = (\<lambda>v. False),
      class_name = (\<lambda>v. ''int''),
      initial_object = (\<lambda>k. 0)\<rparr>"

definition code_cell_of :: "string \<Rightarrow> raw_cell" where
  "code_cell_of src = \<lparr>cell_type = Some ''code'', raw_source = Some (SrcStr src)\<rparr>"

definition nb_example :: "raw_cell list" where
  "nb_example =
     [\<lparr>cell_type = Some ''markdown'', raw_source = Some (SrcStr ''def f(x):'')\<rparr>,
      code_cell_of ''x = 1'',
      \<lparr>cell_type = Some ''code'',
       raw_source = Some (SrcList [''import math'', [newline], ''  def  f (x):'', [newline],
                                   ''    return x''])\<rparr>,
      code_cell_of ''def f(y): pass'']"

definition nb_failing :: "raw_cell list" where
  "nb_failing =
     [code_cell_of ''x = 1'',
      code_cell_of (''raise ValueError('' @ [CHR 0x27] @ ''boom'' @ [CHR 0x27] @ '')''),
      code_cell_of ''y = x + 1'']"



section \<open>llm\_integration.py: parsing a provider response\<close>

text \<open>
  A verdict is a Python dict with string keys and JSON values, in insertion order.
  \<^verbatim>\<open>json.loads\<close> is a parameter: applied to a text that starts with a brace it gives
  a dict, raises \<^verbatim>\<open>JSONDecodeError\<close>, or raises something else (\<^verbatim>\<open>RecursionError\<close> on a
  deeply nested document), given by its text.
\<close>

datatype json =
  JNull | JBool bool | JInt int | JFloat real | JStr string | JArr "json list"
  | JObj "(string \<times> json) list"

type_synonym verdict = "(string \<times> json) list"

datatype loads_result = Parsed verdict | JSONDecodeError | LoadsRaised string

text \<open>The exceptions that leave the functions modelled here.\<close>

datatype error =
  IndexError | LLMProviderError string | AttributeError | TypeError | OverflowError
  | RaisedByLoads string

text \<open>\<^verbatim>\<open>s.lower()\<close> on the code points 0..255.\<close>

definition lower_char :: "char \<Rightarrow> char" where
  "lower_char c =
     (let n = (of_char c :: nat)
      in if (65 \<le> n \<and> n \<le> 90) \<or> (192 \<le> n \<and> n \<le> 222 \<and> n \<noteq> 215)
         then char_of (n + 32) else c)"

definition lower :: "string \<Rightarrow> string" where
  "lower s = map lower_char s"

text \<open>\<^verbatim>\<open>s.split(sep)\<close> for a one-character separator: never the empty list.\<close>

fun split_on :: "char \<Rightarrow> string \<Rightarrow> string list" where
  "split_on sep [] = [[]]"
| "split_on sep (c # cs) =
     (if c = sep then [] # split_on sep cs
      else (case split_on sep cs of
              [] \<Rightarrow> [[c]]
            | l # ls \<Rightarrow> (c # l) # ls))"

text \<open>The dict that \<^verbatim>\<open>_parse_text_response\<close> starts from; \<open>ts\<close> is
  \<^verbatim>\<open>datetime.now().isoformat()\<close>.\<close>

definition initial_result :: "string \<Rightarrow> string \<Rightarrow> string \<Rightarrow> verdict" where
  "initial_result response function_name ts =
     [(''comparison_result'', JStr ''unknown''),
      (''educational_feedback'', JStr response),
      (''suggestions'', JArr []),
      (''score'', JInt 50),
      (''understanding_check'', JArr []),
      (''function_name'', JStr function_name),
      (''timestamp'', JStr ts)]"

text \<open>The \<^verbatim>\<open>if\<close>/\<^verbatim>\<open>elif\<close> chain of the loop, on the stripped and lowered line: the
  assessment and score the line assigns, if any.\<close>

definition line_verdict :: "string \<Rightarrow> (string \<times> int) option" where
  "line_verdict line =
     (if py_in ''correct'' line \<and> py_in ''implementation'' line then Some (''correct'', 85)
      else if py_in ''incorrect'' line \<or> py_in ''error'' line then Some (''incorrect'', 25)
      else if py_in ''partially'' line \<or> py_in ''almost'' line
        then Some (''partially_correct'', 60)
      else None)"

definition scan_line :: "verdict \<Rightarrow> string \<Rightarrow> verdict" where
  "scan_line result raw_line =
     (case line_verdict (lower (strip raw_line)) of
        None \<Rightarrow> result
      | Some (assessment, points) \<Rightarrow>
          AList.update ''score'' (JInt points)
            (AList.update ''comparison_result'' (JStr assessment) result))"

definition parse_text_response :: "string \<Rightarrow> string \<Rightarrow> string \<Rightarrow> verdict" where
  "parse_text_response response function_name ts =
     foldl scan_line (initial_result response function_name ts) (split_on newline response)"

text \<open>
  \<^verbatim>\<open>_parse_comparison_response\<close>.  The reply of a provider is a string or \<^verbatim>\<open>None\<close>;
  \<^verbatim>\<open>response.strip()\<close> on \<^verbatim>\<open>None\<close> raises \<^verbatim>\<open>AttributeError\<close>.  Only \<^verbatim>\<open>JSONDecodeError\<close> is
  caught; whatever else \<^verbatim>\<open>json.loads\<close> raises leaves the function.
\<close>

definition parse_comparison_response ::
  "(string \<Rightarrow> loads_result) \<Rightarrow> string option \<Rightarrow> string \<Rightarrow> string \<Rightarrow> error + verdict" where
  "parse_comparison_response json_loads reply function_name ts =
     (case reply of
        None \<Rightarrow> Inl AttributeError
      | Some response \<Rightarrow>
          (if startswith (strip response) ''{'' then
             (case json_loads response of
                Parsed parsed \<Rightarrow> Inr parsed
              | JSONDecodeError \<Rightarrow> Inr (parse_text_response response function_name ts)
              | LoadsRaised e \<Rightarrow> Inl (RaisedByLoads e))
           else Inr (parse_text_response response function_name ts)))"

text \<open>The keyword tests in the words of the specification, on a stripped and lowered
  line.\<close>

definition says_correct :: "string \<Rightarrow> bool" where
  "says_correct line = (py_in ''correct'' line \<and> py_in ''implementation'' line)"

definition says_incorrect :: "string \<Rightarrow> bool" where
  "says_incorrect line = (py_in ''incorrect'' line \<or> py_in ''error'' line)"

definition says_partially :: "string \<Rightarrow> bool" where
  "says_partially line = (py_in ''partially'' line \<or> py_in ''almost'' line)"

definition decisive :: "string \<Rightarrow> bool" where
  "decisive line = (says_correct line \<or> says_incorrect line \<or> says_partially line)"

definition scanned_lines :: "string \<Rightarrow> string list" where
  "scanned_lines response = map (\<lambda>raw_line. lower (strip raw_line)) (split_on newline response)"

definition assessed :: "verdict \<Rightarrow> string \<Rightarrow> int \<Rightarrow> bool" where
  "assessed result assessment points =
     (map_of result ''comparison_result'' = Some (JStr assessment)
      \<and> map_of result ''score'' = Some (JInt points))"

text \<open>A reply on which \<^verbatim>\<open>_parse_comparison_response\<close> raises.\<close>

definition unparsable :: "(string \<Rightarrow> loads_result) \<Rightarrow> string option \<Rightarrow> bool" where
  "unparsable loads reply =
     (case reply of
        None \<Rightarrow> True
      | Some response \<Rightarrow>
          startswith (strip response) ''{''
          \<and> (case loads response of LoadsRaised e \<Rightarrow> True | _ \<Rightarrow> False))"

definition verdict_keys :: "string list" where
  "verdict_keys = [''comparison_result'', ''educational_feedback'', ''suggestions'', ''score'',
                   ''understanding_check'', ''function_name'', ''timestamp'']"


section \<open>llm\_integration.py: rate limiter, cache and providers\<close>

text \<open>
  Time is an integer count of microseconds (the resolution of \<^verbatim>\<open>datetime\<close>); a second is
  \<open>1000000\<close>.  \<^verbatim>\<open>datetime.now()\<close> reads \<open>clock\<close>; \<^verbatim>\<open>time.sleep(d)\<close> advances it by \<open>d\<close> and
  is logged in \<open>sleeps\<close>.  The two call counters are those of mock providers.

  The cache directory is a map from key to file.  A file is an entry written by
  \<^verbatim>\<open>set\<close> (timestamp and data), or one of the other contents that \<^verbatim>\<open>get\<close> tells apart:
  not JSON; JSON that is not a dict; a dict without \<^verbatim>\<open>timestamp\<close>; a dict whose
  timestamp is not a string; a dict whose timestamp string does not parse; a dict with
  a timestamp and no \<^verbatim>\<open>data\<close>.
\<close>

datatype cache_file =
  NotJson | NotDict | NoTimestamp | TimestampNotString | BadTimestamp | NoData int
  | Entry int verdict

record llm_state =
  clock :: int
  sleeps :: "int list"
  requests :: "int list"
  cache_files :: "string \<rightharpoonup> cache_file"
  primary_calls :: nat
  fallback_calls :: nat

definition second :: int where
  "second = 1000000"

definition sleep :: "int \<Rightarrow> llm_state \<Rightarrow> llm_state" where
  "sleep d st = st\<lparr>clock := clock st + d, sleeps := sleeps st @ [d]\<rparr>"

text \<open>\<^verbatim>\<open>RateLimiter.wait_if_needed\<close>; \<^verbatim>\<open>self.requests[0]\<close> raises on the empty list.\<close>

definition wait_if_needed :: "int \<Rightarrow> llm_state \<Rightarrow> error option \<times> llm_state" where
  "wait_if_needed requests_per_minute st =
     (let now = clock st;
          pruned = filter (\<lambda>req_time. now - req_time < 60 * second) (requests st);
          st1 = st\<lparr>requests := pruned\<rparr>
      in if int (length pruned) \<ge> requests_per_minute then
           (case pruned of
              [] \<Rightarrow> (Some IndexError, st1)
            | oldest # _ \<Rightarrow>
                (let sleep_time = 60 * second - (now - oldest);
                     st2 = (if sleep_time > 0 then sleep sleep_time st1 else st1)
                 in (None, st2\<lparr>requests := pruned @ [now]\<rparr>)))
         else (None, st1\<lparr>requests := pruned @ [now]\<rparr>))"

text \<open>\<^verbatim>\<open>timedelta(seconds=ttl_seconds)\<close> raises \<^verbatim>\<open>OverflowError\<close> beyond 999999999 days.\<close>

definition timedelta_ok :: "int \<Rightarrow> bool" where
  "timedelta_ok ttl_seconds =
     (- 999999999 \<le> ttl_seconds div 86400 \<and> ttl_seconds div 86400 \<le> 999999999)"

definition unlink :: "string \<Rightarrow> llm_state \<Rightarrow> llm_state" where
  "unlink key st = st\<lparr>cache_files := (cache_files st)(key := None)\<rparr>"

text \<open>
  \<^verbatim>\<open>ResponseCache.get\<close> and \<^verbatim>\<open>ResponseCache.set\<close>.  \<^verbatim>\<open>get\<close> catches \<^verbatim>\<open>JSONDecodeError\<close>,
  \<^verbatim>\<open>KeyError\<close> and \<^verbatim>\<open>ValueError\<close> (it removes the file and returns \<^verbatim>\<open>None\<close>); the
  \<^verbatim>\<open>TypeError\<close> of subscripting a value that is not a dict or of parsing a timestamp that
  is not a string, and the \<^verbatim>\<open>OverflowError\<close> of the time to live, leave it.
\<close>

definition cache_get ::
  "int \<Rightarrow> string \<Rightarrow> llm_state \<Rightarrow> (error + verdict option) \<times> llm_state" where
  "cache_get ttl_seconds key st =
     (case cache_files st key of
        None \<Rightarrow> (Inr None, st)
      | Some NotJson \<Rightarrow> (Inr None, unlink key st)
      | Some NotDict \<Rightarrow> (Inl TypeError, st)
      | Some NoTimestamp \<Rightarrow> (Inr None, unlink key st)
      | Some TimestampNotString \<Rightarrow> (Inl TypeError, st)
      | Some BadTimestamp \<Rightarrow> (Inr None, unlink key st)
      | Some (NoData cache_time) \<Rightarrow>
          (if \<not> timedelta_ok ttl_seconds then (Inl OverflowError, st)
           else (Inr None, unlink key st))
      | Some (Entry cache_time data) \<Rightarrow>
          (if \<not> timedelta_ok ttl_seconds then (Inl OverflowError, st)
           else if clock st - cache_time > ttl_seconds * second
           then (Inr None, unlink key st)
           else (Inr (Some data), st)))"

definition cache_set :: "string \<Rightarrow> verdict \<Rightarrow> llm_state \<Rightarrow> llm_state" where
  "cache_set key data st = st\<lparr>cache_files := (cache_files st)(key \<mapsto> Entry (clock st) data)\<rparr>"

text \<open>
  A provider: its configured retry count and its service.  \<open>http_post n prompt\<close> is the outcome
  of the request when the provider has served \<open>n\<close> requests before: how long it took,
  and either that the request raised (timeout, HTTP error) or what the reply holds as
  its text, a string or \<^verbatim>\<open>None\<close>.
\<close>

datatype http_outcome = RequestFailed | Replied "string option"

record provider =
  retry_attempts :: int
  http_post :: "nat \<Rightarrow> string \<Rightarrow> nat \<times> http_outcome"

datatype slot = Primary | Fallback

definition calls :: "slot \<Rightarrow> llm_state \<Rightarrow> nat" where
  "calls which st = (case which of Primary \<Rightarrow> primary_calls st | Fallback \<Rightarrow> fallback_calls st)"

definition served :: "slot \<Rightarrow> nat \<Rightarrow> llm_state \<Rightarrow> llm_state" where
  "served which duration st =
     (case which of
        Primary \<Rightarrow> st\<lparr>clock := clock st + int duration, primary_calls := Suc (primary_calls st)\<rparr>
      | Fallback \<Rightarrow> st\<lparr>clock := clock st + int duration, fallback_calls := Suc (fallback_calls st)\<rparr>)"

text \<open>\<^verbatim>\<open>generate_response\<close>: what it returns (the text of the reply, or \<^verbatim>\<open>None\<close>, also
  when the loop body never ran), or the \<^verbatim>\<open>LLMProviderError\<close> of the last attempt.
  \<open>remaining\<close> counts the iterations of \<^verbatim>\<open>for attempt in range(retry_attempts)\<close> still to
  come.\<close>

datatype response = Reply "string option" | ProviderFailed

fun attempt_loop ::
  "provider \<Rightarrow> slot \<Rightarrow> string \<Rightarrow> nat \<Rightarrow> nat \<Rightarrow> llm_state \<Rightarrow> response \<times> llm_state" where
  "attempt_loop p which prompt attempt 0 st = (Reply None, st)"
| "attempt_loop p which prompt attempt (Suc remaining) st =
     (case http_post p (calls which st) prompt of
        (duration, Replied response_text) \<Rightarrow> (Reply response_text, served which duration st)
      | (duration, RequestFailed) \<Rightarrow>
          (if int attempt = retry_attempts p - 1
           then (ProviderFailed, served which duration st)
           else attempt_loop p which prompt (Suc attempt) remaining
                  (sleep (2 ^ attempt * second) (served which duration st))))"

definition generate_response ::
  "provider \<Rightarrow> slot \<Rightarrow> string \<Rightarrow> llm_state \<Rightarrow> response \<times> llm_state" where
  "generate_response p which prompt st =
     attempt_loop p which prompt 0 (nat (retry_attempts p)) st"

text \<open>
  The evaluator: its providers, the cache (\<open>None\<close> when disabled, else the time to live
  in seconds), the rate limit, and the library functions it calls.  The prompt template
  is \<open>create_prompt\<close>, taken as total: the extra context is a dict that
  \<^verbatim>\<open>json.dumps\<close> accepts.  The configuration is well formed (every key the code reads is
  there).
\<close>

record evaluator =
  primary_provider :: provider
  fallback_provider :: "provider option"
  cache_ttl :: "int option"
  requests_per_minute :: int
  json_loads :: "string \<Rightarrow> loads_result"
  md5 :: "string \<Rightarrow> string"
  create_prompt :: "string \<Rightarrow> string \<Rightarrow> string \<Rightarrow> verdict option \<Rightarrow> string"
  isoformat :: "int \<Rightarrow> string"

definition generate_cache_key :: "evaluator \<Rightarrow> string \<Rightarrow> string \<Rightarrow> string \<Rightarrow> string" where
  "generate_cache_key ev student_code reference_code function_name =
     md5 ev (student_code @ ''|'' @ reference_code @ ''|'' @ function_name)"

text \<open>\<^verbatim>\<open>if self.cache: cached_result = self.cache.get(cache_key)\<close>\<close>

definition cache_lookup ::
  "evaluator \<Rightarrow> string \<Rightarrow> llm_state \<Rightarrow> (error + verdict option) \<times> llm_state" where
  "cache_lookup ev cache_key st =
     (case cache_ttl ev of
        None \<Rightarrow> (Inr None, st)
      | Some ttl_seconds \<Rightarrow> cache_get ttl_seconds cache_key st)"

text \<open>The loop over the primary and the fallback provider: a provider that is not
  configured is passed over; the \<^verbatim>\<open>try\<close> block holds the request and the parsing of the
  reply, and any exception of either moves on to the next provider; the first reply that
  parses ends the loop.\<close>

fun provider_loop ::
  "evaluator \<Rightarrow> string \<Rightarrow> string \<Rightarrow> (slot \<times> provider option) list \<Rightarrow> llm_state
     \<Rightarrow> verdict option \<times> llm_state" where
  "provider_loop ev prompt function_name [] st = (None, st)"
| "provider_loop ev prompt function_name ((which, None) # rest) st =
     provider_loop ev prompt function_name rest st"
| "provider_loop ev prompt function_name ((which, Some p) # rest) st =
     (case generate_response p which prompt st of
        (Reply response_text, st') \<Rightarrow>
          (case parse_comparison_response (json_loads ev) response_text function_name
                  (isoformat ev (clock st')) of
             Inr result \<Rightarrow> (Some result, st')
           | Inl e \<Rightarrow> provider_loop ev prompt function_name rest st')
      | (ProviderFailed, st') \<Rightarrow> provider_loop ev prompt function_name rest st')"

text \<open>\<^verbatim>\<open>compare_code\<close> from the prompt on (the part after the cache lookup).\<close>

definition ask_providers ::
  "evaluator \<Rightarrow> string \<Rightarrow> string \<Rightarrow> string \<Rightarrow> verdict option \<Rightarrow> string \<Rightarrow> llm_state
     \<Rightarrow> (error + verdict) \<times> llm_state" where
  "ask_providers ev student_code reference_code function_name context cache_key st =
     (let prompt = create_prompt ev student_code reference_code function_name context
      in case provider_loop ev prompt function_name
                [(Primary, Some (primary_provider ev)), (Fallback, fallback_provider ev)] st of
           (None, st') \<Rightarrow>
             (Inl (LLMProviderError ''All LLM providers failed to generate response''), st')
         | (Some result, st') \<Rightarrow>
             (Inr result,
              (case cache_ttl ev of
                 None \<Rightarrow> st'
               | Some ttl_seconds \<Rightarrow> cache_set cache_key result st')))"

text \<open>\<^verbatim>\<open>compare_code\<close>.  An exception of the rate limiter or of the cache lookup leaves
  it.  \<^verbatim>\<open>if cached_result:\<close> tests the truth value of what the cache returned: false for
  \<^verbatim>\<open>None\<close> and for the empty dict.\<close>

definition compare_code ::
  "evaluator \<Rightarrow> string \<Rightarrow> string \<Rightarrow> string \<Rightarrow> verdict option \<Rightarrow> llm_state
     \<Rightarrow> (error + verdict) \<times> llm_state" where
  "compare_code ev student_code reference_code function_name context st =
     (case wait_if_needed (requests_per_minute ev) st of
        (Some e, st1) \<Rightarrow> (Inl e, st1)
      | (None, st1) \<Rightarrow>
          (let cache_key = generate_cache_key ev student_code reference_code function_name
           in case cache_lookup ev cache_key st1 of
                (Inl e, st2) \<Rightarrow> (Inl e, st2)
              | (Inr None, st2) \<Rightarrow>
                  ask_providers ev student_code reference_code function_name context
                    cache_key st2
              | (Inr (Some cached_result), st2) \<Rightarrow>
                  (if cached_result \<noteq> [] then (Inr cached_result, st2)
                   else ask_providers ev student_code reference_code function_name context
                          cache_key st2)))"



text \<open>The pauses of exponential backoff before attempts \<open>1 .. m\<close>: 1, 2, 4, ... seconds.\<close>

definition backoff :: "nat \<Rightarrow> int list" where
  "backoff m = map (\<lambda>attempt. 2 ^ attempt * second) [0..<m]"

text \<open>
  Examples.  \<open>deep_document\<close> is a JSON text with an array nested 100000 deep, on which
  \<^verbatim>\<open>json.loads\<close> raises \<^verbatim>\<open>RecursionError\<close>; \<open>example_loads\<close> is \<^verbatim>\<open>json.loads\<close> on the documents
  used here.  The providers: one answers every request with the empty JSON object, one
  fails every request, one answers its second request in plain text, one answers every
  request with the deep document.
\<close>

definition deep_document :: string where
  "deep_document = [CHR ''{'', CHR 0x22, CHR ''a'', CHR 0x22, CHR '':''] @ replicate 100000 CHR ''[''"

definition example_loads :: "string \<Rightarrow> loads_result" where
  "example_loads text =
     (if strip text = ''{}'' then Parsed []
      else if text = deep_document then LoadsRaised ''maximum recursion depth exceeded''
      else JSONDecodeError)"

definition empty_object_provider :: provider where
  "empty_object_provider =
     \<lparr>retry_attempts = 3, http_post = (\<lambda>n prompt. (0, Replied (Some ''{}'')))\<rparr>"

definition failing_provider :: provider where
  "failing_provider = \<lparr>retry_attempts = 3, http_post = (\<lambda>n prompt. (0, RequestFailed))\<rparr>"

definition text_provider :: provider where
  "text_provider =
     \<lparr>retry_attempts = 2,
      http_post = (\<lambda>n prompt. (0, if n = 0 then RequestFailed
                                   else Replied (Some ''Almost right'')))\<rparr>"

definition deep_provider :: provider where
  "deep_provider =
     \<lparr>retry_attempts = 3, http_post = (\<lambda>n prompt. (0, Replied (Some deep_document)))\<rparr>"

definition example_evaluator :: "provider \<Rightarrow> provider option \<Rightarrow> evaluator" where
  "example_evaluator p fb =
     \<lparr>primary_provider = p, fallback_provider = fb, cache_ttl = Some 3600,
      requests_per_minute = 2, json_loads = example_loads, md5 = (\<lambda>content. content),
      create_prompt = (\<lambda>student_code reference_code function_name context. student_code),
      isoformat = (\<lambda>t. show_nat (nat t))\<rparr>"

definition initial_state :: llm_state where
  "initial_state =
     \<lparr>clock = 0, sleeps = [], requests = [], cache_files = Map.empty,
      primary_calls = 0, fallback_calls = 0\<rparr>"






text \<open>What the requests of a provider do, counted from the number it has served: every
  attempt of a call fails, or attempt \<open>j\<close> is the first not to fail, with a reply.\<close>

definition all_attempts_fail :: "provider \<Rightarrow> nat \<Rightarrow> string \<Rightarrow> bool" where
  "all_attempts_fail p served_before prompt =
     (\<forall>j < nat (retry_attempts p). snd (http_post p (served_before + j) prompt) = RequestFailed)"

definition first_reply :: "provider \<Rightarrow> nat \<Rightarrow> string \<Rightarrow> nat \<Rightarrow> string option \<Rightarrow> bool" where
  "first_reply p served_before prompt j reply =
     (j < nat (retry_attempts p)
      \<and> (\<forall>i < j. snd (http_post p (served_before + i) prompt) = RequestFailed)
      \<and> snd (http_post p (served_before + j) prompt) = Replied reply)"

text \<open>
  A provider answers when its first reply parses.  It counts as failed, after \<open>k\<close>
  requests and the pauses \<open>pauses\<close>, when all attempts of the retry count fail, or when
  its first reply does not parse (then no further attempt is made).
\<close>

definition provider_answers ::
  "evaluator \<Rightarrow> provider \<Rightarrow> nat \<Rightarrow> string \<Rightarrow> nat \<Rightarrow> string option \<Rightarrow> bool" where
  "provider_answers ev p served_before prompt j reply =
     (first_reply p served_before prompt j reply \<and> \<not> unparsable (json_loads ev) reply)"

definition provider_fails ::
  "evaluator \<Rightarrow> provider \<Rightarrow> nat \<Rightarrow> string \<Rightarrow> nat \<Rightarrow> int list \<Rightarrow> bool" where
  "provider_fails ev p served_before prompt k pauses =
     ((all_attempts_fail p served_before prompt
       \<and> k = nat (retry_attempts p) \<and> pauses = backoff (nat (retry_attempts p) - 1))
      \<or> (\<exists>j reply. first_reply p served_before prompt j reply
            \<and> unparsable (json_loads ev) reply \<and> k = Suc j \<and> pauses = backoff j))"

definition other :: "slot \<Rightarrow> slot" where
  "other which = (case which of Primary \<Rightarrow> Fallback | Fallback \<Rightarrow> Primary)"

text \<open>What a provider attempt leaves untouched, and what it adds.\<close>

definition attempt_effect :: "slot \<Rightarrow> nat \<Rightarrow> int list \<Rightarrow> llm_state \<Rightarrow> llm_state \<Rightarrow> bool" where
  "attempt_effect which n pauses st st' =
     (calls which st' = calls which st + n
      \<and> calls (other which) st' = calls (other which) st
      \<and> sleeps st' = sleeps st @ pauses
      \<and> cache_files st' = cache_files st
      \<and> requests st' = requests st
      \<and> clock st \<le> clock st')"

text \<open>Evaluators for the examples: the primary provider fails every request and the
  fallback answers its second; the primary provider answers with the deep document and
  there is no fallback.\<close>

definition fallback_evaluator :: evaluator where
  "fallback_evaluator = example_evaluator failing_provider (Some text_provider)"

definition deep_evaluator :: evaluator where
  "deep_evaluator = example_evaluator deep_provider None"

section \<open>evaluation.py: grading a notebook\<close>

text \<open>
  One entry of the dict that \<^verbatim>\<open>_extract_student_code\<close> returns: the function name, the
  code found for it (empty when there is none), and the optional keys \<^verbatim>\<open>cell_index\<close>,
  \<^verbatim>\<open>cell_range\<close> and \<^verbatim>\<open>context\<close>.
\<close>

record implementation =
  impl_function_name :: string
  impl_code :: string
  impl_cell_index :: "int option"
  impl_cell_range :: "json option"
  impl_context :: "verdict option"

























section \<open>Properties of the function locator\<close>

text \<open>The continuation matcher finds exactly the decompositions of the string that the
  pattern describes.\<close>

lemma startswith_iff: "startswith s p \<longleftrightarrow> (\<exists>rest. s = p @ rest)"
  unfolding startswith_def
  by (metis append_eq_conv_conj append_take_drop_id)

lemma lit_iff: "lit p k s \<longleftrightarrow> (\<exists>rest. s = p @ rest \<and> k rest)"
  unfolding lit_def startswith_iff by auto

lemma ws_star_iff:
  "ws_star k s \<longleftrightarrow> (\<exists>ws rest. s = ws @ rest \<and> all_space ws \<and> k rest)"
proof (induction s)
  case Nil
  show ?case by (simp add: all_space_def)
next
  case (Cons c cs)
  show ?case
  proof
    assume "ws_star k (c # cs)"
    then consider "k (c # cs)" | "is_space c" "ws_star k cs" by auto
    then show "\<exists>ws rest. c # cs = ws @ rest \<and> all_space ws \<and> k rest"
    proof cases
      case 1
      then have "c # cs = [] @ (c # cs) \<and> all_space [] \<and> k (c # cs)"
        by (simp add: all_space_def)
      then show ?thesis by blast
    next
      case 2
      then obtain ws rest where "cs = ws @ rest" "all_space ws" "k rest"
        using Cons.IH by blast
      with 2 have "c # cs = (c # ws) @ rest \<and> all_space (c # ws) \<and> k rest"
        by (simp add: all_space_def)
      then show ?thesis by blast
    qed
  next
    assume "\<exists>ws rest. c # cs = ws @ rest \<and> all_space ws \<and> k rest"
    then obtain ws rest where h: "c # cs = ws @ rest" "all_space ws" "k rest" by blast
    show "ws_star k (c # cs)"
    proof (cases ws)
      case Nil
      with h have "k (c # cs)" by simp
      then show ?thesis by simp
    next
      case (Cons w ws')
      with h have "w = c" "cs = ws' @ rest" "is_space c" "all_space ws'"
        by (simp_all add: all_space_def)
      with h Cons.IH show ?thesis by auto
    qed
  qed
qed

lemma ws_plus_iff:
  "ws_plus k s \<longleftrightarrow> (\<exists>ws rest. s = ws @ rest \<and> ws \<noteq> [] \<and> all_space ws \<and> k rest)"
proof
  assume "ws_plus k s"
  then obtain c cs where s: "s = c # cs" "is_space c" "ws_star k cs"
    by (auto simp: ws_plus_def split: list.splits)
  then obtain ws rest where "cs = ws @ rest" "all_space ws" "k rest"
    using ws_star_iff by blast
  with s have "s = (c # ws) @ rest \<and> c # ws \<noteq> [] \<and> all_space (c # ws) \<and> k rest"
    by (simp add: all_space_def)
  then show "\<exists>ws rest. s = ws @ rest \<and> ws \<noteq> [] \<and> all_space ws \<and> k rest" by blast
next
  assume "\<exists>ws rest. s = ws @ rest \<and> ws \<noteq> [] \<and> all_space ws \<and> k rest"
  then obtain ws rest where h: "s = ws @ rest" "ws \<noteq> []" "all_space ws" "k rest" by blast
  then obtain w ws' where w: "ws = w # ws'" by (cases ws) auto
  with h have "is_space w" "all_space ws'" by (simp_all add: all_space_def)
  with h w have "ws_star k (ws' @ rest)" using ws_star_iff by blast
  with h w \<open>is_space w\<close> show "ws_plus k s" by (simp add: ws_plus_def)
qed

lemma ws_starI: "all_space ws \<Longrightarrow> k rest \<Longrightarrow> ws_star k (ws @ rest)"
  using ws_star_iff by blast

lemma ws_plusI: "ws \<noteq> [] \<Longrightarrow> all_space ws \<Longrightarrow> k rest \<Longrightarrow> ws_plus k (ws @ rest)"
  using ws_plus_iff by blast

lemma litI: "k rest \<Longrightarrow> lit p k (p @ rest)"
  using lit_iff by blast

lemma ws_starE:
  assumes "ws_star k s"
  obtains ws rest where "s = ws @ rest" "all_space ws" "k rest"
  using assms ws_star_iff by blast

lemma ws_plusE:
  assumes "ws_plus k s"
  obtains ws rest where "s = ws @ rest" "ws \<noteq> []" "all_space ws" "k rest"
  using assms ws_plus_iff by blast

lemma litE:
  assumes "lit p k s"
  obtains rest where "s = p @ rest" "k rest"
  using assms lit_iff by blast

lemma match_header_iff:
  "match_header n s \<longleftrightarrow>
     (\<exists>ws1 ws2 ws3 post. s = ws1 @ ''def'' @ ws2 @ n @ ws3 @ ''('' @ post
        \<and> all_space ws1 \<and> ws2 \<noteq> [] \<and> all_space ws2 \<and> all_space ws3)"
  (is "?L \<longleftrightarrow> ?R")
proof
  assume ?L
  then have "ws_star (lit ''def'' (ws_plus (lit n (ws_star (lit ''('' (\<lambda>_. True)))))) s"
    by (simp only: match_header_def)
  then obtain ws1 r1 where 1: "s = ws1 @ r1" "all_space ws1"
      "lit ''def'' (ws_plus (lit n (ws_star (lit ''('' (\<lambda>_. True))))) r1"
    by (rule ws_starE)
  from 1(3) obtain r2 where 2: "r1 = ''def'' @ r2"
      "ws_plus (lit n (ws_star (lit ''('' (\<lambda>_. True)))) r2"
    by (rule litE)
  from 2(2) obtain ws2 r3 where 3: "r2 = ws2 @ r3" "ws2 \<noteq> []" "all_space ws2"
      "lit n (ws_star (lit ''('' (\<lambda>_. True))) r3"
    by (rule ws_plusE)
  from 3(4) obtain r4 where 4: "r3 = n @ r4" "ws_star (lit ''('' (\<lambda>_. True)) r4"
    by (rule litE)
  from 4(2) obtain ws3 r5 where 5: "r4 = ws3 @ r5" "all_space ws3" "lit ''('' (\<lambda>_. True) r5"
    by (rule ws_starE)
  from 5(3) obtain post where 6: "r5 = ''('' @ post"
    by (rule litE)
  have "s = ws1 @ ''def'' @ ws2 @ n @ ws3 @ ''('' @ post"
    using 1(1) 2(1) 3(1) 4(1) 5(1) 6 by simp
  with 1(2) 3(2,3) 5(2) show ?R by blast
next
  assume ?R
  then obtain ws1 ws2 ws3 post where h: "s = ws1 @ ''def'' @ ws2 @ n @ ws3 @ ''('' @ post"
      "all_space ws1" "ws2 \<noteq> []" "all_space ws2" "all_space ws3" by blast
  have "ws_star (lit ''def'' (ws_plus (lit n (ws_star (lit ''('' (\<lambda>_. True))))))
          (ws1 @ ''def'' @ ws2 @ n @ ws3 @ ''('' @ post)"
    by (intro ws_starI litI ws_plusI h TrueI)
  then show ?L by (simp only: match_header_def h(1))
qed


lemma search_header_iff:
  "search_header n b s \<longleftrightarrow>
     (\<exists>pre rest. s = pre @ rest \<and> (if pre = [] then b else last pre = newline)
        \<and> match_header n rest)"
proof (induction s arbitrary: b)
  case Nil
  show ?case by simp
next
  case (Cons c cs)
  show ?case (is "?L \<longleftrightarrow> ?R")
  proof
    assume ?L
    then consider "b" "match_header n (c # cs)" | "search_header n (c = newline) cs"
      by auto
    then show ?R
    proof cases
      case 1
      then have "c # cs = [] @ (c # cs) \<and> (if [] = ([]::string) then b else last [] = newline)
          \<and> match_header n (c # cs)" by simp
      then show ?thesis by blast
    next
      case 2
      then obtain pre rest where h: "cs = pre @ rest"
          "if pre = [] then c = newline else last pre = newline" "match_header n rest"
        using Cons.IH by blast
      then have "c # cs = (c # pre) @ rest
          \<and> (if c # pre = [] then b else last (c # pre) = newline) \<and> match_header n rest"
        by (simp split: if_splits)
      then show ?thesis by blast
    qed
  next
    assume ?R
    then obtain pre rest where h: "c # cs = pre @ rest"
        "if pre = [] then b else last pre = newline" "match_header n rest" by blast
    show ?L
    proof (cases pre)
      case Nil
      with h have "b" "match_header n (c # cs)" by simp_all
      then show ?thesis by simp
    next
      case (Cons p pre')
      with h have "p = c" "cs = pre' @ rest"
          "if pre' = [] then c = newline else last pre' = newline"
        by (simp_all split: if_splits)
      with h(3) have "search_header n (c = newline) cs"
        using Cons.IH by blast
      then show ?thesis by simp
    qed
  qed
qed

lemma re_search_def_iff: "re_search_def n src \<longleftrightarrow> header_in n src"
proof
  assume "re_search_def n src"
  then obtain pre rest where h: "src = pre @ rest" "pre = [] \<or> last pre = newline"
      "match_header n rest"
    unfolding re_search_def_def search_header_iff by (auto split: if_splits)
  from h(3) obtain ws1 ws2 ws3 post where m: "rest = ws1 @ ''def'' @ ws2 @ n @ ws3 @ ''('' @ post"
      "all_space ws1" "ws2 \<noteq> []" "all_space ws2" "all_space ws3"
    unfolding match_header_iff by blast
  show "header_in n src"
    unfolding header_in_def using h(1,2) m by blast
next
  assume "header_in n src"
  then obtain pre ws1 ws2 ws3 post where
    h: "src = pre @ ws1 @ ''def'' @ ws2 @ n @ ws3 @ ''('' @ post" "pre = [] \<or> last pre = newline"
      "all_space ws1" "ws2 \<noteq> []" "all_space ws2" "all_space ws3"
    unfolding header_in_def by blast
  have "match_header n (ws1 @ ''def'' @ ws2 @ n @ ws3 @ ''('' @ post)"
    unfolding match_header_iff using h(3-6) by blast
  moreover have "if pre = [] then True else last pre = newline" using h(2) by auto
  ultimately show "re_search_def n src"
    unfolding re_search_def_def search_header_iff using h(1) by blast
qed

lemma extract_loop_ordinals:
  assumes "\<forall>i < length cl. original_index (cl ! i) = i"
  shows "\<forall>i < length (extract_loop idx raw cl).
           original_index (extract_loop idx raw cl ! i) = i"
  using assms
proof (induction raw arbitrary: idx cl)
  case Nil
  then show ?case by simp
next
  case (Cons cell rest)
  show ?case
  proof (cases "cell_type cell = Some ''code''")
    case True
    let ?cl' = "cl @ [\<lparr>index = idx, source = source_of cell, original_index = length cl\<rparr>]"
    have "\<forall>i < length ?cl'. original_index (?cl' ! i) = i"
      using Cons.prems by (auto simp: nth_append less_Suc_eq)
    from Cons.IH[OF this] True show ?thesis by simp
  next
    case False
    with Cons.IH[OF Cons.prems] show ?thesis by simp
  qed
qed

lemma extract_code_cells_ordinals:
  "i < length (extract_code_cells nb) \<Longrightarrow> original_index (extract_code_cells nb ! i) = i"
  unfolding extract_code_cells_def using extract_loop_ordinals[of "[]" 0 nb] by simp

lemma find_function_cell_cases:
  "(find_function_cell cl n = - 1 \<and> (\<forall>c \<in> set cl. \<not> re_search_def n (source c)))
   \<or> (\<exists>k < length cl. find_function_cell cl n = int (original_index (cl ! k))
         \<and> re_search_def n (source (cl ! k))
         \<and> (\<forall>j < k. \<not> re_search_def n (source (cl ! j))))"
proof (induction cl)
  case Nil
  show ?case by simp
next
  case (Cons c cs)
  show ?case
  proof (cases "re_search_def n (source c)")
    case True
    then have "0 < length (c # cs)
        \<and> find_function_cell (c # cs) n = int (original_index ((c # cs) ! 0))
        \<and> re_search_def n (source ((c # cs) ! 0))
        \<and> (\<forall>j < 0. \<not> re_search_def n (source ((c # cs) ! j)))" by simp
    then show ?thesis by blast
  next
    case False
    from Cons.IH show ?thesis
    proof
      assume "find_function_cell cs n = - 1 \<and> (\<forall>c \<in> set cs. \<not> re_search_def n (source c))"
      with False show ?thesis by simp
    next
      assume "\<exists>k < length cs. find_function_cell cs n = int (original_index (cs ! k))
         \<and> re_search_def n (source (cs ! k))
         \<and> (\<forall>j < k. \<not> re_search_def n (source (cs ! j)))"
      then obtain k where k: "k < length cs"
          "find_function_cell cs n = int (original_index (cs ! k))"
          "re_search_def n (source (cs ! k))"
          "\<forall>j < k. \<not> re_search_def n (source (cs ! j))" by blast
      have "\<forall>j < Suc k. \<not> re_search_def n (source ((c # cs) ! j))"
        using False k(4) by (auto simp: less_Suc_eq_0_disj)
      with False k have "Suc k < length (c # cs)
          \<and> find_function_cell (c # cs) n = int (original_index ((c # cs) ! Suc k))
          \<and> re_search_def n (source ((c # cs) ! Suc k))
          \<and> (\<forall>j < Suc k. \<not> re_search_def n (source ((c # cs) ! j)))" by simp
      then show ?thesis by blast
    qed
  qed
qed

text \<open>
  Claim C5.  For every notebook and every function name, \<open>find_function_cell\<close> returns
  the code-cell ordinal of the first cell, in code-cell order, whose source has a
  definition header for exactly that name: at the start of a line, optional whitespace,
  \<^verbatim>\<open>def\<close>, whitespace, the name, optional whitespace, \<^verbatim>\<open>(\<close>.  The ordinal is the cell's
  position among the code cells, no earlier cell has such a header (the first
  definition wins), and the result is \<open>- 1\<close> exactly when no cell has one.  The locator
  reads the cell list and changes nothing, so running it again gives the same ordinal.
\<close>

theorem find_function_cell_first_match:
  "let cl = extract_code_cells nb; r = find_function_cell cl function_name in
     (r = - 1 \<and> (\<forall>c \<in> set cl. \<not> header_in function_name (source c)))
     \<or> (0 \<le> r \<and> nat r < length cl
         \<and> original_index (cl ! nat r) = nat r
         \<and> header_in function_name (source (cl ! nat r))
         \<and> (\<forall>j < nat r. \<not> header_in function_name (source (cl ! j))))"
proof -
  define cl where "cl = extract_code_cells nb"
  define r where "r = find_function_cell cl function_name"
  from find_function_cell_cases[of cl function_name]
  have "(r = - 1 \<and> (\<forall>c \<in> set cl. \<not> header_in function_name (source c)))
     \<or> (0 \<le> r \<and> nat r < length cl
         \<and> original_index (cl ! nat r) = nat r
         \<and> header_in function_name (source (cl ! nat r))
         \<and> (\<forall>j < nat r. \<not> header_in function_name (source (cl ! j))))"
  proof
    assume "find_function_cell cl function_name = - 1
        \<and> (\<forall>c \<in> set cl. \<not> re_search_def function_name (source c))"
    then show ?thesis unfolding r_def re_search_def_iff by blast
  next
    assume "\<exists>k < length cl.
        find_function_cell cl function_name = int (original_index (cl ! k))
         \<and> re_search_def function_name (source (cl ! k))
         \<and> (\<forall>j < k. \<not> re_search_def function_name (source (cl ! j)))"
    then obtain k where k: "k < length cl"
        "find_function_cell cl function_name = int (original_index (cl ! k))"
        "header_in function_name (source (cl ! k))"
        "\<forall>j < k. \<not> header_in function_name (source (cl ! j))"
      unfolding re_search_def_iff by blast
    have "original_index (cl ! k) = k"
      using k(1) extract_code_cells_ordinals unfolding cl_def by blast
    with k have "r = int k" unfolding r_def by simp
    with k \<open>original_index (cl ! k) = k\<close> show ?thesis by simp
  qed
  then show ?thesis unfolding Let_def cl_def r_def .
qed

theorem find_function_cell_first_match_witness:
  "find_function_cell (extract_code_cells nb_example) ''f'' = 1
   \<and> header_in ''f'' (source (extract_code_cells nb_example ! 1))
   \<and> \<not> header_in ''f'' (source (extract_code_cells nb_example ! 0))"
proof -
  have r: "find_function_cell (extract_code_cells nb_example) ''f'' = 1"
    by code_simp
  show ?thesis
    using find_function_cell_first_match [of nb_example "''f''"] unfolding Let_def r by simp
qed


section \<open>Properties of the context validator\<close>

text \<open>
  Claim C6, as the code has it.  For every function name (the four pipeline stages
  among them) and every namespace, \<open>validate_context_for_function\<close> returns
  \<open>(ok, missing)\<close> where \<open>missing\<close> lists the required names absent from the namespace
  in the order of the requirements table (it is not sorted), and \<open>ok\<close> holds exactly
  when \<open>missing\<close> is empty.  The function only reads the namespace.
\<close>

theorem validate_context_missing:
  assumes "validate_context_for_function function_name ctx = (ok, missing)"
  shows "missing = filter (\<lambda>var. var \<notin> fst ` set ctx) (requirements function_name)
       \<and> set missing = set (requirements function_name) - fst ` set ctx
       \<and> subseq missing (requirements function_name)
       \<and> (ok \<longleftrightarrow> missing = [])
       \<and> (ok \<longleftrightarrow> set (requirements function_name) \<subseteq> fst ` set ctx)"
proof -
  have m: "missing = filter (\<lambda>var. var \<notin> fst ` set ctx) (requirements function_name)"
    using assms by (auto simp: validate_context_for_function_def Let_def map_of_eq_None_iff)
  have ok: "ok \<longleftrightarrow> missing = []"
    using assms by (auto simp: validate_context_for_function_def Let_def)
  have s: "set missing = set (requirements function_name) - fst ` set ctx"
    unfolding m by auto
  have "subseq missing (requirements function_name)"
    unfolding m by simp
  moreover have "ok \<longleftrightarrow> set (requirements function_name) \<subseteq> fst ` set ctx"
    unfolding ok using s by (metis Diff_eq_empty_iff set_empty)
  ultimately show ?thesis using m ok s by blast
qed

text \<open>With an empty namespace the stage \<^verbatim>\<open>compute_attention_scores\<close> reports
  \<^verbatim>\<open>['Q', 'K', 'torch', 'math']\<close>, which is not in sorted order.\<close>

theorem validate_context_sorted_counterexample:
  "\<not> sorted (snd (validate_context_for_function ''compute_attention_scores''
                   ([] :: unit namespace)))"
  by (simp add: validate_context_for_function_def requirements_def)

theorem validate_context_missing_witness:
  "validate_context_for_function ''compute_attention_scores''
       [(''Q'', ()), (''torch'', ())] = (False, [''K'', ''math''])
   \<and> set [''K'', ''math''] = set (requirements ''compute_attention_scores'')
         - fst ` set [(''Q'', ()), (''torch'', ())]"
proof -
  have v: "validate_context_for_function ''compute_attention_scores''
       [(''Q'', ()), (''torch'', ())] = (False, [''K'', ''math''])"
    by (simp add: validate_context_for_function_def requirements_def)
  from validate_context_missing [OF v] v show ?thesis by blast
qed


section \<open>Properties of the context executor\<close>

text \<open>The code cells of a notebook carry their position as ordinal, so the loop of
  \<open>execute_cells_until\<close> stops at the cell after the target.\<close>

lemma replay_cells_beyond:
  assumes "\<forall>j < length cs. original_index (cs ! j) = i + j" and "target < int i"
  shows "replay_cells rt target i cs ctx w = (Inr ctx, w)"
proof (cases cs)
  case Nil
  then show ?thesis by simp
next
  case (Cons c rest)
  with assms(1) have "original_index c = i" by fastforce
  with assms(2) Cons show ?thesis by simp
qed

lemma ordinals_tail:
  assumes "\<forall>j < length (c # rest). original_index ((c # rest) ! j) = i + j"
  shows "original_index c = i" and "\<forall>j < length rest. original_index (rest ! j) = Suc i + j"
proof -
  from assms show "original_index c = i" by fastforce
  show "\<forall>j < length rest. original_index (rest ! j) = Suc i + j"
  proof (intro allI impI)
    fix j assume "j < length rest"
    then have "Suc j < length (c # rest)" by simp
    with assms have "original_index ((c # rest) ! Suc j) = i + Suc j" by blast
    then show "original_index (rest ! j) = Suc i + j" by simp
  qed
qed

lemma replay_cells_all:
  assumes "\<forall>j < length cs. original_index (cs ! j) = i + j"
    and "int i + int (length cs) \<le> target + 1"
  shows "replay_cells rt target i cs ctx w = replay_all rt i cs ctx w"
  using assms
proof (induction cs arbitrary: i ctx w)
  case Nil
  show ?case by simp
next
  case (Cons c rest)
  from ordinals_tail[OF Cons.prems(1)]
  have c: "original_index c = i"
    and rest: "\<forall>j < length rest. original_index (rest ! j) = Suc i + j" by blast+
  from Cons.prems(2) have le: "int (Suc i) + int (length rest) \<le> target + 1" by simp
  from Cons.prems(2) c have nb: "\<not> int (original_index c) > target" by simp
  show ?case
    using nb Cons.IH[OF rest le] by (simp split: prod.splits sum.splits)
qed


lemma execute_cells_until_miss:
  assumes "execution_cache ex target = None"
  shows "fst (execute_cells_until rt ex target w)
         = fst (replay_cells rt target 0 (cells ex) (initialize_context rt) w)"
  using assms by (simp add: execute_cells_until_def split: prod.splits sum.splits)



lemma extract_ordinals_all:
  "\<forall>j < length (extract_code_cells nb). original_index (extract_code_cells nb ! j) = 0 + j"
  using extract_code_cells_ordinals by simp




text \<open>
  Claim C2, as the code has it.  A target at or beyond the last code-cell ordinal
  replays every cell of the notebook.  A negative target is not clamped: the loop
  leaves at the first cell, no cell is executed and the result is the initial context.
\<close>

theorem execute_cells_until_target_range:
  assumes "cells ex = extract_code_cells nb" and "execution_cache ex target = None"
  shows "(int (length (cells ex)) \<le> target + 1 \<longrightarrow>
           fst (execute_cells_until rt ex target w)
             = fst (replay_all rt 0 (cells ex) (initialize_context rt) w))
       \<and> (target < 0 \<longrightarrow>
           fst (execute_cells_until rt ex target w) = Inr (initialize_context rt))"
proof -
  have ords: "\<forall>j < length (cells ex). original_index (cells ex ! j) = 0 + j"
    using extract_ordinals_all[of nb] assms(1) by simp
  have a: "fst (execute_cells_until rt ex target w)
             = fst (replay_all rt 0 (cells ex) (initialize_context rt) w)"
    if "int (length (cells ex)) \<le> target + 1"
    using replay_cells_all[OF ords, of target rt "initialize_context rt" w] that
      execute_cells_until_miss[OF assms(2), of rt w] by simp
  have b: "fst (execute_cells_until rt ex target w) = Inr (initialize_context rt)"
    if "target < 0"
    using replay_cells_beyond[OF ords, of target rt "initialize_context rt" w] that
      execute_cells_until_miss[OF assms(2), of rt w] by simp
  from a b show ?thesis by blast
qed

theorem execute_cells_until_target_range_witness:
  "fst (execute_cells_until example_runtime (new_executor nb_failing) 7 [])
     = Inr (initialize_context example_runtime @ [(''x'', 1), (''y'', 2)])
   \<and> fst (execute_cells_until example_runtime (new_executor nb_failing) (- 3) [])
     = Inr (initialize_context example_runtime)"
proof -
  let ?ex = "new_executor nb_failing :: int executor"
  have 1: "cells ?ex = extract_code_cells nb_failing" by (simp add: new_executor_def)
  have 2: "execution_cache ?ex 7 = None" "execution_cache ?ex (- 3) = None"
    by (simp_all add: new_executor_def)
  have 3: "int (length (cells ?ex)) \<le> 7 + 1" by code_simp
  have 4: "fst (replay_all example_runtime 0 (cells ?ex) (initialize_context example_runtime) [])
             = Inr (initialize_context example_runtime @ [(''x'', 1), (''y'', 2)])" by code_simp
  from execute_cells_until_target_range [OF 1 2(1), of example_runtime "[]"]
       execute_cells_until_target_range [OF 1 2(2), of example_runtime "[]"] 3 4
  show ?thesis by simp
qed

text \<open>On a notebook whose cells bind \<^verbatim>\<open>x\<close> and \<^verbatim>\<open>y\<close>, the target \<open>- 1\<close> gives a namespace
  other than the replay of the whole notebook.\<close>

theorem negative_target_counterexample:
  "fst (execute_cells_until example_runtime (new_executor nb_failing) (- 1) [])
   \<noteq> fst (execute_cells_until example_runtime (new_executor nb_failing) 2 [])"
  by code_simp
section \<open>Properties of the response parser\<close>

text \<open>The scan keeps the seven keys of the verdict and changes only the assessment and
  the score; the last line that assigns them decides.\<close>

lemma scan_line_keys:
  assumes "map fst r = verdict_keys"
  shows "map fst (scan_line r raw) = verdict_keys"
  using assms by (auto simp: scan_line_def verdict_keys_def update_keys split: option.splits)

lemma scan_line_other:
  assumes "k \<noteq> ''comparison_result''" "k \<noteq> ''score''"
  shows "map_of (scan_line r raw) k = map_of r k"
  using assms by (auto simp: scan_line_def update_conv' split: option.splits)

lemma foldl_scan_keys:
  "map fst r = verdict_keys \<Longrightarrow> map fst (foldl scan_line r raws) = verdict_keys"
  by (induction raws arbitrary: r) (simp_all add: scan_line_keys)

lemma foldl_scan_other:
  "k \<noteq> ''comparison_result'' \<Longrightarrow> k \<noteq> ''score''
   \<Longrightarrow> map_of (foldl scan_line r raws) k = map_of r k"
  by (induction raws arbitrary: r) (simp_all add: scan_line_other)

lemma scan_line_none:
  "line_verdict (lower (strip raw)) = None \<Longrightarrow> scan_line r raw = r"
  by (simp add: scan_line_def)

lemma scan_line_some:
  "line_verdict (lower (strip raw)) = Some (a, p) \<Longrightarrow> assessed (scan_line r raw) a p"
  by (simp add: scan_line_def assessed_def update_conv')

lemma foldl_scan_none:
  "\<forall>raw \<in> set raws. line_verdict (lower (strip raw)) = None \<Longrightarrow> foldl scan_line r raws = r"
  by (induction raws arbitrary: r) (simp_all add: scan_line_none)

lemma foldl_scan_last:
  assumes "line_verdict (lower (strip raw)) = Some (a, p)"
    and "\<forall>raw' \<in> set post. line_verdict (lower (strip raw')) = None"
  shows "assessed (foldl scan_line r (pre @ raw # post)) a p"
  using assms by (simp add: foldl_scan_none scan_line_some)

lemma line_verdict_none: "line_verdict l = None \<longleftrightarrow> \<not> decisive l"
  by (auto simp: line_verdict_def decisive_def says_correct_def says_incorrect_def
      says_partially_def)

lemma line_verdict_range:
  "line_verdict l = Some ap \<Longrightarrow>
     ap \<in> {(''correct'', 85), (''incorrect'', 25), (''partially_correct'', 60)}"
  by (auto simp: line_verdict_def split: if_splits)

lemma foldl_scan_range:
  assumes "\<exists>a p. assessed r a p \<and> (a, p) \<in> {(''correct'', 85), (''incorrect'', 25),
             (''partially_correct'', 60), (''unknown'', 50)}"
  shows "\<exists>a p. assessed (foldl scan_line r raws) a p
           \<and> (a, p) \<in> {(''correct'', 85), (''incorrect'', 25),
                (''partially_correct'', 60), (''unknown'', 50)}"
  using assms
proof (induction raws arbitrary: r)
  case Nil
  then show ?case by simp
next
  case (Cons raw raws)
  have "\<exists>a p. assessed (scan_line r raw) a p
           \<and> (a, p) \<in> {(''correct'', 85), (''incorrect'', 25),
                (''partially_correct'', 60), (''unknown'', 50)}"
  proof (cases "line_verdict (lower (strip raw))")
    case None
    with Cons.prems show ?thesis by (simp add: scan_line_none)
  next
    case (Some ap)
    obtain a p where ap: "ap = (a, p)" by (cases ap)
    from line_verdict_range[OF Some] ap
    have "(a, p) \<in> {(''correct'', 85), (''incorrect'', 25), (''partially_correct'', 60)}"
      by simp
    moreover have "assessed (scan_line r raw) a p"
      using Some ap scan_line_some by simp
    ultimately show ?thesis by blast
  qed
  from Cons.IH[OF this] show ?case by simp
qed

lemma initial_assessed: "assessed (initial_result response fn ts) ''unknown'' 50"
  by (simp add: assessed_def initial_result_def)

lemma initial_keys_ok: "map fst (initial_result response fn ts) = verdict_keys"
  by (simp add: initial_result_def verdict_keys_def)

lemma strip_keeps:
  assumes "s \<noteq> []" and "\<not> is_space (hd s)" and "\<not> is_space (last s)"
  shows "strip s = s"
proof -
  from assms(1,2) have 1: "dropWhile is_space s = s" by (cases s) auto
  from assms(1,3) have "dropWhile is_space (rev s) = rev s"
    by (cases "rev s") (auto simp: last_rev[symmetric] simp del: last_rev)
  with 1 show ?thesis by (simp add: strip_def)
qed

lemma strip_deep_document: "strip deep_document = deep_document"
proof (rule strip_keeps)
  show "deep_document \<noteq> []" by (simp add: deep_document_def)
  show "\<not> is_space (hd deep_document)" by (simp add: deep_document_def is_space_def)
  have "last deep_document = CHR ''[''" by (simp add: deep_document_def)
  then show "\<not> is_space (last deep_document)" by (simp add: is_space_def)
qed

lemma deep_document_brace: "startswith (strip deep_document) ''{''"
  unfolding strip_deep_document by (simp add: startswith_def deep_document_def)

lemma deep_document_not_empty_object: "strip deep_document \<noteq> ''{}''"
  unfolding strip_deep_document by (simp add: deep_document_def)

lemma parse_deep_document:
  "parse_comparison_response example_loads (Some deep_document) function_name ts
     = Inl (RaisedByLoads ''maximum recursion depth exceeded'')"
  using deep_document_brace deep_document_not_empty_object
  by (simp add: parse_comparison_response_def example_loads_def)

text \<open>
  Claim C4, as the code has it.  When the response does not start with a brace, or
  \<^verbatim>\<open>json.loads\<close> raises \<^verbatim>\<open>JSONDecodeError\<close> on it, the verdict is that of the line-by-line
  scan.  The scan yields a verdict with all seven fields from every response, whose
  assessment and score are one of correct/85, incorrect/25, partially\_correct/60,
  unknown/50.  It is unknown/50 when no line is decisive.  Otherwise the last decisive
  line assigns it, and for a line that does not have both \<^verbatim>\<open>implementation\<close> and
  \<^verbatim>\<open>incorrect\<close>: correct/85 when the line has \<^verbatim>\<open>correct\<close> and \<^verbatim>\<open>implementation\<close>; if not,
  incorrect/25 when it has \<^verbatim>\<open>incorrect\<close> or \<^verbatim>\<open>error\<close>; if neither, partially\_correct/60
  when it has \<^verbatim>\<open>partially\<close> or \<^verbatim>\<open>almost\<close>.  Nothing is stated for a last decisive line
  that has both \<^verbatim>\<open>implementation\<close> and \<^verbatim>\<open>incorrect\<close>.  When the response starts with a
  brace and \<^verbatim>\<open>json.loads\<close> raises anything else, that exception leaves the parser and
  there is no verdict.
\<close>

theorem parse_text_response_verdict:
  "let result = parse_text_response response function_name ts;
       lines = scanned_lines response
   in map fst result = verdict_keys
      \<and> map_of result ''educational_feedback'' = Some (JStr response)
      \<and> map_of result ''suggestions'' = Some (JArr [])
      \<and> map_of result ''understanding_check'' = Some (JArr [])
      \<and> map_of result ''function_name'' = Some (JStr function_name)
      \<and> map_of result ''timestamp'' = Some (JStr ts)
      \<and> (\<exists>a p. assessed result a p
             \<and> (a, p) \<in> {(''correct'', 85), (''incorrect'', 25),
                        (''partially_correct'', 60), (''unknown'', 50)})
      \<and> ((\<forall>line \<in> set lines. \<not> decisive line) \<longrightarrow> assessed result ''unknown'' 50)
      \<and> (\<forall>pre line post.
            lines = pre @ line # post \<and> (\<forall>l \<in> set post. \<not> decisive l)
            \<and> \<not> (py_in ''implementation'' line \<and> py_in ''incorrect'' line) \<longrightarrow>
              (says_correct line \<longrightarrow> assessed result ''correct'' 85)
            \<and> (\<not> says_correct line \<and> says_incorrect line
                 \<longrightarrow> assessed result ''incorrect'' 25)
            \<and> (\<not> says_correct line \<and> \<not> says_incorrect line \<and> says_partially line
                 \<longrightarrow> assessed result ''partially_correct'' 60))
      \<and> (\<not> startswith (strip response) ''{'' \<or> loads response = JSONDecodeError
           \<longrightarrow> parse_comparison_response loads (Some response) function_name ts = Inr result)
      \<and> (\<forall>e. startswith (strip response) ''{'' \<and> loads response = LoadsRaised e
           \<longrightarrow> parse_comparison_response loads (Some response) function_name ts
                 = Inl (RaisedByLoads e))"
proof -
  define r0 where "r0 = initial_result response function_name ts"
  define raws where "raws = split_on newline response"
  define result where "result = parse_text_response response function_name ts"
  define lines where "lines = scanned_lines response"
  have res: "result = foldl scan_line r0 raws"
    by (simp add: result_def parse_text_response_def r0_def raws_def)
  have lines: "lines = map (\<lambda>raw. lower (strip raw)) raws"
    by (simp add: lines_def scanned_lines_def raws_def)
  have k: "map fst result = verdict_keys"
    unfolding res r0_def by (rule foldl_scan_keys[OF initial_keys_ok])
  have f: "map_of result ''educational_feedback'' = Some (JStr response)"
      "map_of result ''suggestions'' = Some (JArr [])"
      "map_of result ''understanding_check'' = Some (JArr [])"
      "map_of result ''function_name'' = Some (JStr function_name)"
      "map_of result ''timestamp'' = Some (JStr ts)"
    unfolding res r0_def by (simp_all add: foldl_scan_other initial_result_def)
  have rng: "\<exists>a p. assessed result a p
             \<and> (a, p) \<in> {(''correct'', 85), (''incorrect'', 25),
                        (''partially_correct'', 60), (''unknown'', 50)}"
    unfolding res r0_def
    by (rule foldl_scan_range) (use initial_assessed in blast)
  have none: "assessed result ''unknown'' 50" if "\<forall>line \<in> set lines. \<not> decisive line"
  proof -
    from that have "\<forall>raw \<in> set raws. line_verdict (lower (strip raw)) = None"
      by (simp add: lines line_verdict_none)
    then show ?thesis
      unfolding res r0_def by (simp add: foldl_scan_none initial_assessed)
  qed
  have last: "(says_correct line \<longrightarrow> assessed result ''correct'' 85)
            \<and> (\<not> says_correct line \<and> says_incorrect line
                 \<longrightarrow> assessed result ''incorrect'' 25)
            \<and> (\<not> says_correct line \<and> \<not> says_incorrect line \<and> says_partially line
                 \<longrightarrow> assessed result ''partially_correct'' 60)"
    if h: "lines = pre @ line # rest" "\<forall>l \<in> set rest. \<not> decisive l" for pre line rest
  proof -
    from h(1) lines obtain rpre raw rpost where
      raws: "raws = rpre @ raw # rpost" and
      line: "line = lower (strip raw)" and
      post: "rest = map (\<lambda>raw. lower (strip raw)) rpost"
      by (auto simp: map_eq_append_conv map_eq_Cons_conv)
    from h(2) post have pn: "\<forall>raw' \<in> set rpost. line_verdict (lower (strip raw')) = None"
      by (simp add: line_verdict_none)
    have step: "assessed result a p" if "line_verdict line = Some (a, p)" for a p
    proof -
      from that line have "line_verdict (lower (strip raw)) = Some (a, p)" by simp
      from foldl_scan_last[OF this pn] show ?thesis unfolding res raws .
    qed
    have 1: "assessed result ''correct'' 85" if "says_correct line"
      using that by (intro step) (simp add: line_verdict_def says_correct_def)
    have 2: "assessed result ''incorrect'' 25" if "says_incorrect line" "\<not> says_correct line"
      using that by (intro step) (auto simp: line_verdict_def says_correct_def says_incorrect_def)
    have 3: "assessed result ''partially_correct'' 60"
      if "says_partially line" "\<not> says_incorrect line" "\<not> says_correct line"
      using that by (intro step)
        (auto simp: line_verdict_def says_correct_def says_incorrect_def says_partially_def)
    from 1 2 3 show ?thesis by blast
  qed
  have pc: "parse_comparison_response loads (Some response) function_name ts = Inr result"
    if "\<not> startswith (strip response) ''{'' \<or> loads response = JSONDecodeError"
    using that by (auto simp: parse_comparison_response_def result_def)
  have pe: "parse_comparison_response loads (Some response) function_name ts
                 = Inl (RaisedByLoads e)"
    if "startswith (strip response) ''{'' \<and> loads response = LoadsRaised e" for e
    using that by (auto simp: parse_comparison_response_def)
  show ?thesis
    unfolding Let_def result_def[symmetric] lines_def[symmetric]
    using k f rng none last pc pe by blast
qed

theorem parse_text_response_verdict_witness:
  "assessed (parse_text_response (''Good try.'' @ [newline] @ ''Almost right!'' @ [newline] @ ''Thanks'') ''f'' ''t'')
     ''partially_correct'' 60
   \<and> parse_comparison_response example_loads
        (Some (''Good try.'' @ [newline] @ ''Almost right!'' @ [newline] @ ''Thanks'')) ''f'' ''t''
      = Inr (parse_text_response
               (''Good try.'' @ [newline] @ ''Almost right!'' @ [newline] @ ''Thanks'') ''f'' ''t'')"
proof -
  let ?resp = "''Good try.'' @ [newline] @ ''Almost right!'' @ [newline] @ ''Thanks''"
  have l: "scanned_lines ?resp = [''good try.''] @ ''almost right!'' # [''thanks'']"
    by code_simp
  have p: "\<forall>l \<in> set [''thanks'']. \<not> decisive l" by code_simp
  have d: "says_partially ''almost right!'' \<and> \<not> says_incorrect ''almost right!''
           \<and> \<not> says_correct ''almost right!''
           \<and> \<not> (py_in ''implementation'' ''almost right!''
                 \<and> py_in ''incorrect'' ''almost right!'')" by code_simp
  have j: "\<not> startswith (strip ?resp) ''{''" by code_simp
  from parse_text_response_verdict [of ?resp "''f''" "''t''" example_loads] l p d j
  show ?thesis unfolding Let_def by blast
qed

text \<open>The one-line response \<^verbatim>\<open>almost\<close> has none of the words \<^verbatim>\<open>correct\<close>, \<^verbatim>\<open>incorrect\<close>,
  \<^verbatim>\<open>partially\<close>, and its verdict is partially\_correct/60, not unknown/50.  On the deep
  document, which starts with a brace, \<^verbatim>\<open>json.loads\<close> raises \<^verbatim>\<open>RecursionError\<close> and the
  parser produces no verdict.\<close>

theorem keyword_table_counterexample:
  "scanned_lines ''almost'' = [''almost'']
   \<and> \<not> py_in ''correct'' ''almost'' \<and> \<not> py_in ''incorrect'' ''almost''
   \<and> \<not> py_in ''partially'' ''almost''
   \<and> \<not> startswith (strip ''almost'') ''{''
   \<and> parse_comparison_response example_loads (Some ''almost'') ''f'' ''t''
       = Inr (parse_text_response ''almost'' ''f'' ''t'')
   \<and> \<not> assessed (parse_text_response ''almost'' ''f'' ''t'') ''unknown'' 50
   \<and> assessed (parse_text_response ''almost'' ''f'' ''t'') ''partially_correct'' 60
   \<and> parse_comparison_response example_loads (Some deep_document) ''f'' ''t''
       = Inl (RaisedByLoads ''maximum recursion depth exceeded'')"
proof -
  have a: "scanned_lines ''almost'' = [''almost'']
   \<and> \<not> py_in ''correct'' ''almost'' \<and> \<not> py_in ''incorrect'' ''almost''
   \<and> \<not> py_in ''partially'' ''almost''
   \<and> \<not> startswith (strip ''almost'') ''{''
   \<and> \<not> assessed (parse_text_response ''almost'' ''f'' ''t'') ''unknown'' 50
   \<and> assessed (parse_text_response ''almost'' ''f'' ''t'') ''partially_correct'' 60"
    by code_simp
  then have "\<not> startswith (strip ''almost'') ''{''" by blast
  then have b: "parse_comparison_response example_loads (Some ''almost'') ''f'' ''t''
       = Inr (parse_text_response ''almost'' ''f'' ''t'')"
    by (simp add: parse_comparison_response_def)
  from a b parse_deep_document show ?thesis by blast
qed

text \<open>A line with \<^verbatim>\<open>implementation\<close> and \<^verbatim>\<open>incorrect\<close> is taken by the first branch,
  because \<^verbatim>\<open>correct\<close> is a substring of \<^verbatim>\<open>incorrect\<close>.\<close>

lemma substring_slip:
  "assessed (parse_text_response ''The implementation is incorrect'' ''f'' ''t'') ''correct'' 85"
  by code_simp

section \<open>Properties of the provider loop\<close>

lemma second_pos: "0 < second"
  by (simp add: second_def)

lemma pause_nonneg: "0 \<le> 2 ^ a * second"
  using second_pos by simp

lemma served_effect: "attempt_effect which 1 [] st (served which d st)"
  by (cases which) (simp_all add: attempt_effect_def served_def calls_def other_def)

lemma sleep_effect: "0 \<le> d \<Longrightarrow> attempt_effect which 0 [d] st (sleep d st)"
  by (cases which) (simp_all add: attempt_effect_def sleep_def calls_def other_def)


lemma attempt_effect_trans:
  "attempt_effect which n ps st st1 \<Longrightarrow> attempt_effect which m qs st1 st2
   \<Longrightarrow> attempt_effect which (n + m) (ps @ qs) st st2"
  by (simp add: attempt_effect_def)

lemma pauses_step: "(2 ^ a * second) # map (\<lambda>k. 2 ^ k * second) [Suc a..<Suc a + r]
                    = map (\<lambda>k. 2 ^ k * second) [a..<a + Suc r]"
  by (simp add: upt_conv_Cons)

lemma served_sleep_effect:
  "attempt_effect which (1 + 0) ([] @ [2 ^ a * second]) st
     (sleep (2 ^ a * second) (served which d st))"
  by (rule attempt_effect_trans[OF served_effect sleep_effect[OF pause_nonneg]])


lemma attempt_loop_all_fail:
  assumes "\<forall>j < rem. snd (http_post p (calls which st + j) prompt) = RequestFailed"
    and "int (a + rem) = retry_attempts p" and "0 < rem"
  shows "\<exists>st'. attempt_loop p which prompt a rem st = (ProviderFailed, st')
           \<and> attempt_effect which rem (map (\<lambda>k. 2 ^ k * second) [a..<a + (rem - 1)]) st st'"
  using assms
proof (induction rem arbitrary: a st)
  case 0
  then show ?case by simp
next
  case (Suc r)
  from Suc.prems(1) have "snd (http_post p (calls which st + 0) prompt) = RequestFailed" by blast
  then obtain d where d: "http_post p (calls which st) prompt = (d, RequestFailed)"
    by (cases "http_post p (calls which st) prompt") auto
  let ?st1 = "served which d st"
  have e1: "attempt_effect which 1 [] st ?st1" by (rule served_effect)
  show ?case
  proof (cases "r = 0")
    case True
    with Suc.prems(2) have "int a = retry_attempts p - 1" by simp
    with d True e1 show ?thesis by simp
  next
    case False
    with Suc.prems(2) have ne: "int a \<noteq> retry_attempts p - 1" by simp
    let ?st2 = "sleep (2 ^ a * second) ?st1"
    have e2: "attempt_effect which (1 + 0) ([] @ [2 ^ a * second]) st ?st2"
      by (rule served_sleep_effect)
    then have c2: "calls which ?st2 = Suc (calls which st)" by (simp add: attempt_effect_def)
    have f: "\<forall>j < r. snd (http_post p (calls which ?st2 + j) prompt) = RequestFailed"
    proof (intro allI impI)
      fix j assume "j < r"
      then have "Suc j < Suc r" by simp
      with Suc.prems(1) have "snd (http_post p (calls which st + Suc j) prompt) = RequestFailed"
        by blast
      then show "snd (http_post p (calls which ?st2 + j) prompt) = RequestFailed"
        by (simp add: c2)
    qed
    from Suc.prems(2) have n: "int (Suc a + r) = retry_attempts p" by simp
    from False have r: "0 < r" by simp
    from Suc.IH[OF f n r] obtain st' where
      l: "attempt_loop p which prompt (Suc a) r ?st2 = (ProviderFailed, st')" and
      e3: "attempt_effect which r (map (\<lambda>k. 2 ^ k * second) [Suc a..<Suc a + (r - 1)]) ?st2 st'"
      by blast
    have "attempt_effect which (1 + 0 + r)
            (([] @ [2 ^ a * second]) @ map (\<lambda>k. 2 ^ k * second) [Suc a..<Suc a + (r - 1)]) st st'"
      by (rule attempt_effect_trans[OF e2 e3])
    moreover have "([] @ [2 ^ a * second]) @ map (\<lambda>k. 2 ^ k * second) [Suc a..<Suc a + (r - 1)]
                   = map (\<lambda>k. 2 ^ k * second) [a..<a + (Suc r - 1)]"
      using r pauses_step[of a "r - 1"] by simp
    ultimately have "attempt_effect which (Suc r)
                       (map (\<lambda>k. 2 ^ k * second) [a..<a + (Suc r - 1)]) st st'" by simp
    with d ne l show ?thesis by simp
  qed
qed

lemma attempt_loop_reply:
  assumes "j < rem"
    and "\<forall>i < j. snd (http_post p (calls which st + i) prompt) = RequestFailed"
    and "snd (http_post p (calls which st + j) prompt) = Replied reply"
    and "int (a + rem) = retry_attempts p"
  shows "\<exists>st'. attempt_loop p which prompt a rem st = (Reply reply, st')
           \<and> attempt_effect which (Suc j) (map (\<lambda>k. 2 ^ k * second) [a..<a + j]) st st'"
  using assms
proof (induction rem arbitrary: a st j)
  case 0
  then show ?case by simp
next
  case (Suc r)
  show ?case
  proof (cases j)
    case 0
    with Suc.prems(3) obtain d where d: "http_post p (calls which st) prompt = (d, Replied reply)"
      by (cases "http_post p (calls which st) prompt") auto
    have "attempt_effect which 1 [] st (served which d st)" by (rule served_effect)
    with d 0 show ?thesis by simp
  next
    case (Suc j')
    with Suc.prems(2) have "snd (http_post p (calls which st + 0) prompt) = RequestFailed"
      by blast
    then obtain d where d: "http_post p (calls which st) prompt = (d, RequestFailed)"
      by (cases "http_post p (calls which st) prompt") auto
    let ?st1 = "served which d st"
    let ?st2 = "sleep (2 ^ a * second) ?st1"
    have e2: "attempt_effect which (1 + 0) ([] @ [2 ^ a * second]) st ?st2"
      by (rule served_sleep_effect)
    then have c2: "calls which ?st2 = Suc (calls which st)" by (simp add: attempt_effect_def)
    from Suc Suc.prems(1) have j': "j' < r" by simp
    with Suc.prems(4) have ne: "int a \<noteq> retry_attempts p - 1" by simp
    have f: "\<forall>i < j'. snd (http_post p (calls which ?st2 + i) prompt) = RequestFailed"
    proof (intro allI impI)
      fix i assume "i < j'"
      then have "Suc i < j" using Suc by simp
      with Suc.prems(2) have "snd (http_post p (calls which st + Suc i) prompt) = RequestFailed"
        by blast
      then show "snd (http_post p (calls which ?st2 + i) prompt) = RequestFailed"
        by (simp add: c2)
    qed
    have s: "snd (http_post p (calls which ?st2 + j') prompt) = Replied reply"
      using Suc.prems(3) Suc by (simp add: c2)
    from Suc.prems(4) have n: "int (Suc a + r) = retry_attempts p" by simp
    from Suc.IH[OF j' f s n] obtain st' where
      l: "attempt_loop p which prompt (Suc a) r ?st2 = (Reply reply, st')" and
      e3: "attempt_effect which (Suc j') (map (\<lambda>k. 2 ^ k * second) [Suc a..<Suc a + j']) ?st2 st'"
      by blast
    have "attempt_effect which (1 + 0 + Suc j')
            (([] @ [2 ^ a * second]) @ map (\<lambda>k. 2 ^ k * second) [Suc a..<Suc a + j']) st st'"
      by (rule attempt_effect_trans[OF e2 e3])
    moreover have "([] @ [2 ^ a * second]) @ map (\<lambda>k. 2 ^ k * second) [Suc a..<Suc a + j']
                   = map (\<lambda>k. 2 ^ k * second) [a..<a + j]"
      using pauses_step[of a j'] Suc by simp
    ultimately have "attempt_effect which (Suc j) (map (\<lambda>k. 2 ^ k * second) [a..<a + j]) st st'"
      using Suc by simp
    with d ne l show ?thesis by simp
  qed
qed

lemma generate_response_reply:
  assumes "first_reply p (calls which st) prompt j reply"
  shows "\<exists>st'. generate_response p which prompt st = (Reply reply, st')
           \<and> attempt_effect which (Suc j) (backoff j) st st'"
proof -
  from assms have j: "j < nat (retry_attempts p)"
    and f: "\<forall>i < j. snd (http_post p (calls which st + i) prompt) = RequestFailed"
    and s: "snd (http_post p (calls which st + j) prompt) = Replied reply"
    by (simp_all add: first_reply_def)
  from j have n: "int (0 + nat (retry_attempts p)) = retry_attempts p" by simp
  from attempt_loop_reply[OF j f s n] show ?thesis
    by (simp add: generate_response_def backoff_def)
qed

lemma generate_response_failure:
  assumes "all_attempts_fail p (calls which st) prompt"
  shows "\<exists>r st'. generate_response p which prompt st = (r, st')
           \<and> (r = ProviderFailed \<or> r = Reply None)
           \<and> attempt_effect which (nat (retry_attempts p))
                (backoff (nat (retry_attempts p) - 1)) st st'"
proof (cases "0 < nat (retry_attempts p)")
  case False
  then have "nat (retry_attempts p) = 0" by simp
  then show ?thesis
    by (simp add: generate_response_def backoff_def attempt_effect_def)
next
  case True
  from assms have f: "\<forall>j < nat (retry_attempts p).
      snd (http_post p (calls which st + j) prompt) = RequestFailed"
    by (simp add: all_attempts_fail_def)
  from True have n: "int (0 + nat (retry_attempts p)) = retry_attempts p" by simp
  from attempt_loop_all_fail[OF f n True] show ?thesis
    by (auto simp: generate_response_def backoff_def)
qed


lemma unparsable_iff:
  "unparsable loads reply \<longleftrightarrow> (\<exists>e. parse_comparison_response loads reply fn ts = Inl e)"
  by (auto simp: unparsable_def parse_comparison_response_def
      split: option.splits loads_result.splits)

lemma provider_step_answers:
  assumes "provider_answers ev p (calls which st) prompt j reply"
  shows "\<exists>sa v. attempt_effect which (Suc j) (backoff j) st sa
           \<and> parse_comparison_response (json_loads ev) reply fn (isoformat ev (clock sa)) = Inr v
           \<and> provider_loop ev prompt fn ((which, Some p) # rest) st = (Some v, sa)"
proof -
  from assms have fr: "first_reply p (calls which st) prompt j reply"
    and up: "\<not> unparsable (json_loads ev) reply" by (simp_all add: provider_answers_def)
  from generate_response_reply[OF fr] obtain sa where
    g: "generate_response p which prompt st = (Reply reply, sa)" and
    e: "attempt_effect which (Suc j) (backoff j) st sa" by blast
  from up obtain v where
    v: "parse_comparison_response (json_loads ev) reply fn (isoformat ev (clock sa)) = Inr v"
    using unparsable_iff[of "json_loads ev" reply fn "isoformat ev (clock sa)"]
    by (cases "parse_comparison_response (json_loads ev) reply fn (isoformat ev (clock sa))") auto
  from g v have "provider_loop ev prompt fn ((which, Some p) # rest) st = (Some v, sa)" by simp
  with e v show ?thesis by blast
qed

lemma parse_None: "parse_comparison_response loads None fn ts = Inl AttributeError"
  by (simp add: parse_comparison_response_def)

lemma provider_step_fails:
  assumes "provider_fails ev p (calls which st) prompt k pauses"
  shows "\<exists>sb. attempt_effect which k pauses st sb
           \<and> provider_loop ev prompt fn ((which, Some p) # rest) st
               = provider_loop ev prompt fn rest sb"
  using assms unfolding provider_fails_def
proof
  assume h: "all_attempts_fail p (calls which st) prompt
       \<and> k = nat (retry_attempts p) \<and> pauses = backoff (nat (retry_attempts p) - 1)"
  from generate_response_failure[of p which st prompt] h obtain r sb where
    g: "generate_response p which prompt st = (r, sb)" and
    r: "r = ProviderFailed \<or> r = Reply None" and
    e: "attempt_effect which k pauses st sb" by blast
  from g r have "provider_loop ev prompt fn ((which, Some p) # rest) st
               = provider_loop ev prompt fn rest sb"
    by (auto simp: parse_None)
  with e show ?thesis by blast
next
  assume "\<exists>j reply. first_reply p (calls which st) prompt j reply
            \<and> unparsable (json_loads ev) reply \<and> k = Suc j \<and> pauses = backoff j"
  then obtain j reply where fr: "first_reply p (calls which st) prompt j reply"
    and up: "unparsable (json_loads ev) reply" and k: "k = Suc j" "pauses = backoff j" by blast
  from generate_response_reply[OF fr] obtain sb where
    g: "generate_response p which prompt st = (Reply reply, sb)" and
    e: "attempt_effect which (Suc j) (backoff j) st sb" by blast
  from up obtain err where
    "parse_comparison_response (json_loads ev) reply fn (isoformat ev (clock sb)) = Inl err"
    using unparsable_iff[of "json_loads ev" reply fn "isoformat ev (clock sb)"] by blast
  with g have "provider_loop ev prompt fn ((which, Some p) # rest) st
               = provider_loop ev prompt fn rest sb" by simp
  with e k show ?thesis by blast
qed

lemma provider_dichotomy:
  "(\<exists>j reply. provider_answers ev p n prompt j reply)
   \<or> (\<exists>k pauses. provider_fails ev p n prompt k pauses)"
proof (cases "all_attempts_fail p n prompt")
  case True
  then show ?thesis unfolding provider_fails_def by blast
next
  case False
  then obtain j where j: "j < nat (retry_attempts p)"
      "snd (http_post p (n + j) prompt) \<noteq> RequestFailed"
    by (auto simp: all_attempts_fail_def)
  define j0 where "j0 = (LEAST j. j < nat (retry_attempts p)
      \<and> snd (http_post p (n + j) prompt) \<noteq> RequestFailed)"
  have j0: "j0 < nat (retry_attempts p)
      \<and> snd (http_post p (n + j0) prompt) \<noteq> RequestFailed"
    unfolding j0_def by (rule LeastI[of _ j]) (use j in blast)
  have lt: "\<forall>i < j0. snd (http_post p (n + i) prompt) = RequestFailed"
  proof (intro allI impI)
    fix i assume i: "i < j0"
    then have "\<not> (i < nat (retry_attempts p)
        \<and> snd (http_post p (n + i) prompt) \<noteq> RequestFailed)"
      unfolding j0_def by (rule not_less_Least)
    with i j0 show "snd (http_post p (n + i) prompt) = RequestFailed" by auto
  qed
  from j0 obtain reply where "snd (http_post p (n + j0) prompt) = Replied reply"
    by (cases "snd (http_post p (n + j0) prompt)") auto
  with j0 lt have fr: "first_reply p n prompt j0 reply" by (simp add: first_reply_def)
  show ?thesis
  proof (cases "unparsable (json_loads ev) reply")
    case True
    with fr show ?thesis unfolding provider_fails_def by blast
  next
    case False
    with fr show ?thesis unfolding provider_answers_def by blast
  qed
qed

lemma calls_simps:
  "calls Primary st = primary_calls st" "calls Fallback st = fallback_calls st"
  "other Primary = Fallback" "other Fallback = Primary"
  by (simp_all add: calls_def other_def)

lemma compare_code_miss:
  assumes "wait_if_needed (requests_per_minute ev) st = (None, st1)"
    and "cache_lookup ev (generate_cache_key ev student_code reference_code function_name) st1
           = (Inr cached, st2)"
    and "cached = None \<or> cached = Some []"
  shows "compare_code ev student_code reference_code function_name ctx st
         = ask_providers ev student_code reference_code function_name ctx
             (generate_cache_key ev student_code reference_code function_name) st2"
  using assms by (auto simp: compare_code_def Let_def)

lemma ask_providers_some:
  assumes "provider_loop ev (create_prompt ev student_code reference_code function_name ctx)
             function_name [(Primary, Some (primary_provider ev)), (Fallback, fallback_provider ev)] st
           = (Some result, sa)"
  shows "\<exists>st'. ask_providers ev student_code reference_code function_name ctx key st
              = (Inr result, st')
           \<and> clock st' = clock sa \<and> sleeps st' = sleeps sa \<and> requests st' = requests sa
           \<and> primary_calls st' = primary_calls sa \<and> fallback_calls st' = fallback_calls sa"
  using assms by (simp add: ask_providers_def Let_def cache_set_def split: option.splits)

lemma ask_providers_none:
  assumes "provider_loop ev (create_prompt ev student_code reference_code function_name ctx)
             function_name [(Primary, Some (primary_provider ev)), (Fallback, fallback_provider ev)] st
           = (None, sa)"
  shows "ask_providers ev student_code reference_code function_name ctx key st
           = (Inl (LLMProviderError ''All LLM providers failed to generate response''), sa)"
  using assms by (simp add: ask_providers_def Let_def)

text \<open>
  Claim C7, as the code has it.  Take a call of \<open>compare_code\<close> that passes the rate gate
  and finds no usable cached verdict.  The primary provider is asked first.  Its requests
  are repeated, up to the retry count and with backoff pauses of 1, 2, 4, ... seconds
  between them, as long as the request itself fails.  If a request is answered and the
  reply parses, the verdict is the parse of that reply and the fallback provider is not
  asked at all.  The provider counts as failed when all requests of the retry count
  fail, and also when a reply arrives that cannot be parsed: then no further request is
  made to it.  After a failed primary provider the fallback provider, when configured,
  is asked in the same way.  If every configured provider fails, the call raises the
  provider error (the code's \<^verbatim>\<open>LLMProviderError\<close>), no verdict is returned and none is
  stored in the cache.
\<close>

theorem compare_code_provider_order:
  assumes "wait_if_needed (requests_per_minute ev) st = (None, st1)"
    and "cache_lookup ev (generate_cache_key ev student_code reference_code function_name) st1
           = (Inr cached, st2)"
    and "cached = None \<or> cached = Some []"
  shows "case compare_code ev student_code reference_code function_name ctx st of
           (r, st') \<Rightarrow>
     (let prompt = create_prompt ev student_code reference_code function_name ctx;
          p = primary_provider ev;
          failed = Inl (LLMProviderError ''All LLM providers failed to generate response'')
      in (\<forall>j reply. provider_answers ev p (primary_calls st2) prompt j reply \<longrightarrow>
            r = parse_comparison_response (json_loads ev) reply function_name
                  (isoformat ev (clock st'))
            \<and> (\<exists>v. r = Inr v)
            \<and> primary_calls st' = primary_calls st2 + Suc j
            \<and> fallback_calls st' = fallback_calls st2
            \<and> sleeps st' = sleeps st2 @ backoff j)
       \<and> (\<forall>k pauses. provider_fails ev p (primary_calls st2) prompt k pauses \<longrightarrow>
            primary_calls st' = primary_calls st2 + k
            \<and> (case fallback_provider ev of
                 None \<Rightarrow>
                   r = failed \<and> cache_files st' = cache_files st2
                   \<and> fallback_calls st' = fallback_calls st2
                   \<and> sleeps st' = sleeps st2 @ pauses
               | Some fb \<Rightarrow>
                   (\<forall>j reply.
                      provider_answers ev fb (fallback_calls st2) prompt j reply \<longrightarrow>
                        r = parse_comparison_response (json_loads ev) reply function_name
                              (isoformat ev (clock st'))
                        \<and> (\<exists>v. r = Inr v)
                        \<and> fallback_calls st' = fallback_calls st2 + Suc j
                        \<and> sleeps st' = sleeps st2 @ pauses @ backoff j)
                   \<and> (\<forall>k2 pauses2.
                      provider_fails ev fb (fallback_calls st2) prompt k2 pauses2 \<longrightarrow>
                        r = failed \<and> cache_files st' = cache_files st2
                        \<and> fallback_calls st' = fallback_calls st2 + k2
                        \<and> sleeps st' = sleeps st2 @ pauses @ pauses2))))"
proof -
  define prompt where "prompt = create_prompt ev student_code reference_code function_name ctx"
  define p where "p = primary_provider ev"
  define key where "key = generate_cache_key ev student_code reference_code function_name"
  define failed :: "error + verdict"
    where "failed = Inl (LLMProviderError ''All LLM providers failed to generate response'')"
  obtain r st' where res: "compare_code ev student_code reference_code function_name ctx st = (r, st')"
    by (cases "compare_code ev student_code reference_code function_name ctx st")
  have ask: "ask_providers ev student_code reference_code function_name ctx key st2 = (r, st')"
    using compare_code_miss[OF assms, of ctx] res unfolding key_def by simp
  let ?loop = "provider_loop ev prompt function_name"
  let ?both = "[(Primary, Some p), (Fallback, fallback_provider ev)]"
  have A: "r = parse_comparison_response (json_loads ev) reply function_name
                  (isoformat ev (clock st'))
            \<and> (\<exists>v. r = Inr v)
            \<and> primary_calls st' = primary_calls st2 + Suc j
            \<and> fallback_calls st' = fallback_calls st2
            \<and> sleeps st' = sleeps st2 @ backoff j"
    if pa: "provider_answers ev p (primary_calls st2) prompt j reply" for j reply
  proof -
    from pa have "provider_answers ev p (calls Primary st2) prompt j reply"
      by (simp add: calls_simps)
    from provider_step_answers[OF this, of function_name "[(Fallback, fallback_provider ev)]"]
    obtain sa v where
      e: "attempt_effect Primary (Suc j) (backoff j) st2 sa" and
      v: "parse_comparison_response (json_loads ev) reply function_name
            (isoformat ev (clock sa)) = Inr v" and
      l: "?loop ?both st2 = (Some v, sa)" by blast
    from ask_providers_some[OF l[unfolded prompt_def p_def], of key] ask
    have "r = Inr v" "clock st' = clock sa" "sleeps st' = sleeps sa"
      "primary_calls st' = primary_calls sa" "fallback_calls st' = fallback_calls sa"
      by auto
    with e v show ?thesis by (simp add: attempt_effect_def calls_simps)
  qed
  have B: "primary_calls st' = primary_calls st2 + k
            \<and> (case fallback_provider ev of
                 None \<Rightarrow>
                   r = failed \<and> cache_files st' = cache_files st2
                   \<and> fallback_calls st' = fallback_calls st2
                   \<and> sleeps st' = sleeps st2 @ pauses
               | Some fb \<Rightarrow>
                   (\<forall>j reply.
                      provider_answers ev fb (fallback_calls st2) prompt j reply \<longrightarrow>
                        r = parse_comparison_response (json_loads ev) reply function_name
                              (isoformat ev (clock st'))
                        \<and> (\<exists>v. r = Inr v)
                        \<and> fallback_calls st' = fallback_calls st2 + Suc j
                        \<and> sleeps st' = sleeps st2 @ pauses @ backoff j)
                   \<and> (\<forall>k2 pauses2.
                      provider_fails ev fb (fallback_calls st2) prompt k2 pauses2 \<longrightarrow>
                        r = failed \<and> cache_files st' = cache_files st2
                        \<and> fallback_calls st' = fallback_calls st2 + k2
                        \<and> sleeps st' = sleeps st2 @ pauses @ pauses2))"
    if pf: "provider_fails ev p (primary_calls st2) prompt k pauses" for k pauses
  proof -
    from pf have "provider_fails ev p (calls Primary st2) prompt k pauses"
      by (simp add: calls_simps)
    from provider_step_fails[OF this, of function_name "[(Fallback, fallback_provider ev)]"]
    obtain sb where
      e: "attempt_effect Primary k pauses st2 sb" and
      l1: "?loop ?both st2 = ?loop [(Fallback, fallback_provider ev)] sb" by blast
    from e have sb: "primary_calls sb = primary_calls st2 + k"
      "fallback_calls sb = fallback_calls st2"
      "sleeps sb = sleeps st2 @ pauses"
      "cache_files sb = cache_files st2"
      by (simp_all add: attempt_effect_def calls_simps)
    show ?thesis
    proof (cases "fallback_provider ev")
      case None
      with l1 have "?loop ?both st2 = (None, sb)" by simp
      from ask_providers_none[OF this[unfolded prompt_def p_def], of key] ask
      have "r = failed" "st' = sb" by (simp_all add: failed_def)
      with sb None show ?thesis by simp
    next
      case (Some fb)
      have C: "r = parse_comparison_response (json_loads ev) reply function_name
                              (isoformat ev (clock st'))
               \<and> (\<exists>v. r = Inr v)
               \<and> primary_calls st' = primary_calls st2 + k
               \<and> fallback_calls st' = fallback_calls st2 + Suc j
               \<and> sleeps st' = sleeps st2 @ pauses @ backoff j"
        if pa2: "provider_answers ev fb (fallback_calls st2) prompt j reply" for j reply
      proof -
        from pa2 sb have "provider_answers ev fb (calls Fallback sb) prompt j reply"
          by (simp add: calls_simps)
        from provider_step_answers[OF this, of function_name "[]"]
        obtain sc v where
          e2: "attempt_effect Fallback (Suc j) (backoff j) sb sc" and
          v: "parse_comparison_response (json_loads ev) reply function_name
                (isoformat ev (clock sc)) = Inr v" and
          l2: "?loop [(Fallback, Some fb)] sb = (Some v, sc)" by blast
        from l1 l2 Some have "?loop ?both st2 = (Some v, sc)" by simp
        from ask_providers_some[OF this[unfolded prompt_def p_def], of key] ask
        have "r = Inr v" "clock st' = clock sc" "sleeps st' = sleeps sc"
          "primary_calls st' = primary_calls sc" "fallback_calls st' = fallback_calls sc"
          by auto
        with e2 sb v show ?thesis by (simp add: attempt_effect_def calls_simps)
      qed
      have D: "r = failed \<and> cache_files st' = cache_files st2
               \<and> primary_calls st' = primary_calls st2 + k
               \<and> fallback_calls st' = fallback_calls st2 + k2
               \<and> sleeps st' = sleeps st2 @ pauses @ pauses2"
        if pf2: "provider_fails ev fb (fallback_calls st2) prompt k2 pauses2" for k2 pauses2
      proof -
        from pf2 sb have "provider_fails ev fb (calls Fallback sb) prompt k2 pauses2"
          by (simp add: calls_simps)
        from provider_step_fails[OF this, of function_name "[]"]
        obtain sc where
          e2: "attempt_effect Fallback k2 pauses2 sb sc" and
          l2: "?loop [(Fallback, Some fb)] sb = ?loop [] sc" by blast
        from l1 l2 Some have "?loop ?both st2 = (None, sc)" by simp
        from ask_providers_none[OF this[unfolded prompt_def p_def], of key] ask
        have "r = failed" "st' = sc" by (simp_all add: failed_def)
        with e2 sb show ?thesis by (simp add: attempt_effect_def calls_simps)
      qed
      have p1: "primary_calls st' = primary_calls st2 + k"
        using provider_dichotomy[of ev fb "fallback_calls st2" prompt] C D by blast
      show ?thesis unfolding Some option.case using C D p1 by blast
    qed
  qed
  show ?thesis
    unfolding res Let_def prod.case prompt_def[symmetric] p_def[symmetric] failed_def[symmetric]
    using A B by blast
qed

theorem compare_code_provider_order_witness:
  "primary_calls (snd (compare_code fallback_evaluator ''a'' ''b'' ''f'' None initial_state)) = 3
   \<and> fallback_calls (snd (compare_code fallback_evaluator ''a'' ''b'' ''f'' None initial_state)) = 2
   \<and> sleeps (snd (compare_code fallback_evaluator ''a'' ''b'' ''f'' None initial_state))
       = backoff 2 @ backoff 1
   \<and> (\<exists>v. fst (compare_code fallback_evaluator ''a'' ''b'' ''f'' None initial_state) = Inr v)"
proof -
  let ?ev = fallback_evaluator
  let ?st1 = "snd (wait_if_needed (requests_per_minute ?ev) initial_state)"
  let ?key = "generate_cache_key ?ev ''a'' ''b'' ''f''"
  let ?st2 = "snd (cache_lookup ?ev ?key ?st1)"
  let ?prompt = "create_prompt ?ev ''a'' ''b'' ''f'' None"
  have "fst (wait_if_needed (requests_per_minute ?ev) initial_state) = None" by code_simp
  then have 1: "wait_if_needed (requests_per_minute ?ev) initial_state = (None, ?st1)"
    by (metis prod.collapse)
  have "fst (cache_lookup ?ev ?key ?st1) = Inr None" by code_simp
  then have 2: "cache_lookup ?ev ?key ?st1 = (Inr None, ?st2)"
    by (metis prod.collapse)
  have 3: "(None :: verdict option) = None \<or> (None :: verdict option) = Some []" by simp
  have c: "primary_calls ?st2 = 0" "fallback_calls ?st2 = 0" "sleeps ?st2 = []"
    by code_simp+
  have pp: "primary_provider ?ev = failing_provider" "fallback_provider ?ev = Some text_provider"
    "json_loads ?ev = example_loads"
    by (simp_all add: fallback_evaluator_def example_evaluator_def)
  have "all_attempts_fail failing_provider (primary_calls ?st2) ?prompt"
    by (simp add: all_attempts_fail_def failing_provider_def)
  then have pf: "provider_fails ?ev failing_provider (primary_calls ?st2) ?prompt 3 (backoff 2)"
    by (simp add: provider_fails_def failing_provider_def)
  have "first_reply text_provider (fallback_calls ?st2) ?prompt 1 (Some ''Almost right'')"
    unfolding c by (simp add: first_reply_def text_provider_def)
  moreover have "\<not> unparsable example_loads (Some ''Almost right'')" by code_simp
  ultimately have pa: "provider_answers ?ev text_provider (fallback_calls ?st2) ?prompt 1
                         (Some ''Almost right'')"
    by (simp add: provider_answers_def pp)
  obtain r st' where res: "compare_code ?ev ''a'' ''b'' ''f'' None initial_state = (r, st')"
    by (cases "compare_code ?ev ''a'' ''b'' ''f'' None initial_state")
  from compare_code_provider_order [OF 1 2 3, of None] pf pa
  have "primary_calls st' = primary_calls ?st2 + 3
        \<and> (\<exists>v. r = Inr v)
        \<and> fallback_calls st' = fallback_calls ?st2 + Suc 1
        \<and> sleeps st' = sleeps ?st2 @ backoff 2 @ backoff 1"
    unfolding res Let_def prod.case pp option.case by blast
  then show ?thesis unfolding res c by simp
qed

lemma deep_provider_reply:
  "generate_response deep_provider Primary prompt st
     = (Reply (Some deep_document), served Primary 0 st)"
  by (simp add: generate_response_def deep_provider_def eval_nat_numeral)

lemma deep_evaluator_ask:
  "ask_providers deep_evaluator ''a'' ''b'' ''f'' None key st
     = (Inl (LLMProviderError ''All LLM providers failed to generate response''),
        served Primary 0 st)"
  by (simp add: ask_providers_def Let_def deep_evaluator_def example_evaluator_def
      deep_provider_reply parse_deep_document)

text \<open>The primary provider has a retry count of three and answers its first request with
  the deep document, on which parsing raises.  There is no fallback.  The provider counts
  as failed after that one request, with no pause and no second attempt.\<close>

theorem no_retry_counterexample:
  "retry_attempts (primary_provider deep_evaluator) = 3
   \<and> fst (compare_code deep_evaluator ''a'' ''b'' ''f'' None initial_state)
       = Inl (LLMProviderError ''All LLM providers failed to generate response'')
   \<and> primary_calls (snd (compare_code deep_evaluator ''a'' ''b'' ''f'' None initial_state)) = 1
   \<and> sleeps (snd (compare_code deep_evaluator ''a'' ''b'' ''f'' None initial_state)) = []"
proof -
  have w: "wait_if_needed (requests_per_minute deep_evaluator) initial_state
             = (None, initial_state\<lparr>requests := [0]\<rparr>)"
    by (simp add: wait_if_needed_def Let_def initial_state_def deep_evaluator_def
        example_evaluator_def)
  have l: "cache_lookup deep_evaluator key (initial_state\<lparr>requests := [0]\<rparr>)
             = (Inr None, initial_state\<lparr>requests := [0]\<rparr>)" for key
    by (simp add: cache_lookup_def cache_get_def initial_state_def deep_evaluator_def
        example_evaluator_def)
  have cc: "compare_code deep_evaluator ''a'' ''b'' ''f'' None initial_state
        = (Inl (LLMProviderError ''All LLM providers failed to generate response''),
           served Primary 0 (initial_state\<lparr>requests := [0]\<rparr>))"
    by (simp add: compare_code_def Let_def w l deep_evaluator_ask)
  have r: "retry_attempts (primary_provider deep_evaluator) = 3"
    by (simp add: deep_evaluator_def example_evaluator_def deep_provider_def)
  show ?thesis unfolding cc using r by (simp add: served_def initial_state_def)
qed

section \<open>Properties of the response cache\<close>

text \<open>A verdict that \<open>compare_code\<close> returns with the cache enabled is in the cache file of
  its key; when it is not the empty dict, the same request before expiry returns it from
  there, with no request to a provider (the state is the one the rate gate left).\<close>

lemma wait_if_needed_cache:
  "wait_if_needed rpm st = (e, st') \<Longrightarrow> cache_files st' = cache_files st"
  by (auto simp: wait_if_needed_def Let_def sleep_def split: list.splits if_splits)

lemma cache_get_hit:
  assumes "cache_get ttl key st = (Inr (Some d), st')"
  shows "st' = st \<and> (\<exists>t. cache_files st key = Some (Entry t d))"
  using assms by (auto simp: cache_get_def split: option.splits cache_file.splits if_splits)

lemma ask_providers_stores:
  assumes "cache_ttl ev = Some ttl"
    and "ask_providers ev a b f ctx key st = (Inr v, st')"
  shows "\<exists>t. cache_files st' key = Some (Entry t v)"
  using assms
  by (auto simp: ask_providers_def Let_def cache_set_def split: prod.splits option.splits)

lemma compare_code_stores:
  assumes ttl: "cache_ttl ev = Some ttl"
    and cc: "compare_code ev a b f ctx st = (Inr v, s1)"
  shows "\<exists>t. cache_files s1 (generate_cache_key ev a b f) = Some (Entry t v)"
proof -
  let ?key = "generate_cache_key ev a b f"
  obtain e st1 where w: "wait_if_needed (requests_per_minute ev) st = (e, st1)"
    by (cases "wait_if_needed (requests_per_minute ev) st")
  with cc have e: "e = None" by (cases e) (auto simp: compare_code_def)
  obtain looked st2 where l: "cache_lookup ev ?key st1 = (looked, st2)"
    by (cases "cache_lookup ev ?key st1")
  from cc w e l obtain cached where c: "looked = Inr cached"
    by (cases looked) (auto simp: compare_code_def Let_def)
  show ?thesis
  proof (cases "cached = None \<or> cached = Some []")
    case True
    from compare_code_miss[OF w[unfolded e] l[unfolded c] True, of ctx] cc
    have "ask_providers ev a b f ctx ?key st2 = (Inr v, s1)" by simp
    from ask_providers_stores[OF ttl this] show ?thesis .
  next
    case False
    then obtain d where d: "cached = Some d" "d \<noteq> []" by (cases cached) auto
    with cc w e l c have v: "v = d" "s1 = st2"
      by (auto simp: compare_code_def Let_def)
    from l c d ttl have "cache_get ttl ?key st1 = (Inr (Some d), st2)"
      by (simp add: cache_lookup_def)
    from cache_get_hit[OF this] v show ?thesis by auto
  qed
qed

lemma cache_round_trip:
  assumes ttl: "cache_ttl ev = Some ttl" and ok: "timedelta_ok ttl"
    and first: "compare_code ev a b f ctx st = (Inr v, s1)"
    and nonempty: "v \<noteq> []"
    and later: "cache_files s1' = cache_files s1"
    and gate: "wait_if_needed (requests_per_minute ev) s1' = (None, s2)"
    and fresh: "\<forall>t. cache_files s1 (generate_cache_key ev a b f) = Some (Entry t v)
                  \<longrightarrow> clock s2 - t \<le> ttl * second"
  shows "compare_code ev a b f ctx' s1' = (Inr v, s2)"
proof -
  let ?key = "generate_cache_key ev a b f"
  from compare_code_stores[OF ttl first] obtain t where
    t: "cache_files s1 ?key = Some (Entry t v)" by blast
  with fresh have le: "clock s2 - t \<le> ttl * second" by blast
  have "cache_files s2 ?key = Some (Entry t v)"
    using wait_if_needed_cache[OF gate] later t by simp
  with le ok have "cache_lookup ev ?key s2 = (Inr (Some v), s2)"
    by (simp add: cache_lookup_def ttl cache_get_def)
  with gate nonempty show ?thesis
    by (simp add: compare_code_def Let_def)
qed

text \<open>
  Claim C3 at a provider that answers with the empty JSON object.  The first call
  returns the empty dict and stores it; the second call with the same triple, at the
  same time, reads it back, finds it false under \<^verbatim>\<open>if cached_result:\<close> and asks the provider
  again: its call counter goes from 1 to 2.
\<close>

theorem empty_verdict_asked_again:
  "fst (compare_code (example_evaluator empty_object_provider None) ''a'' ''b'' ''f'' None
          initial_state) = Inr []
   \<and> primary_calls (snd (compare_code (example_evaluator empty_object_provider None)
                            ''a'' ''b'' ''f'' None initial_state)) = 1
   \<and> cache_files (snd (compare_code (example_evaluator empty_object_provider None)
                          ''a'' ''b'' ''f'' None initial_state))
        (generate_cache_key (example_evaluator empty_object_provider None) ''a'' ''b'' ''f'')
      = Some (Entry 0 [])
   \<and> clock (snd (compare_code (example_evaluator empty_object_provider None)
                    ''a'' ''b'' ''f'' None initial_state)) = 0
   \<and> fst (compare_code (example_evaluator empty_object_provider None) ''a'' ''b'' ''f'' None
            (snd (compare_code (example_evaluator empty_object_provider None)
                    ''a'' ''b'' ''f'' None initial_state))) = Inr []
   \<and> primary_calls
        (snd (compare_code (example_evaluator empty_object_provider None) ''a'' ''b'' ''f'' None
                (snd (compare_code (example_evaluator empty_object_provider None)
                        ''a'' ''b'' ''f'' None initial_state)))) = 2"
  by code_simp

section \<open>Properties of the rate limiter\<close>
























section \<open>Properties of the grade report\<close>



















end
